theory Spec2Isabelle
  imports Main "HOL-Library.Word" "HOL-Library.Code_Target_Nat"
begin

unbundle bit_operations_syntax

section \<open>The AFL++ libFuzzer driver (examples/aflpp\_driver/aflpp\_driver.c)\<close>

text \<open>
  The driver is a sequence of calls into the C library, the operating system, the AFL
  runtime and the fuzz target. The embedding passes an explicit program state through
  each function of the source, records every external call as an event of a trace, and
  takes the answer of every external call from a record of oracles (\<open>world\<close>).
  A call to \<open>abort\<close> or a failed \<open>assert\<close> ends the run with \<open>Halt Aborted\<close>; the
  persistent loop, which the source leaves only when \<open>__afl_persistent_loop\<close> answers 0,
  is run with fuel, and \<open>Halt Out_of_fuel\<close> carries the state reached so far.
  The fuzz target and \<open>LLVMFuzzerInitialize\<close> are opaque callables that return.
\<close>

subsection \<open>Data\<close>

type_synonym byte = "8 word"
type_synonym ptr = "64 word"

datatype map_flag = MAP_FIXED_NOREPLACE | MAP_SHARED | MAP_ANONYMOUS

text \<open>Which of the two buffers of \<open>main\<close> a target call is given.\<close>

datatype buffer = Dummy_input | Buf

datatype message =
    Msg_dummy_map_at ptr
  | Msg_info string
  | Msg_running_init
  | Msg_continue
  | Msg_deprecated string int
  | Msg_dummy_map_now ptr
  | Msg_reading nat string
  | Msg_exec_ok
  | Msg_success string
  | Msg_freopen_failed
  | Msg_perror_unset
  | Msg_assert_N_positive

datatype event =
    Setenv string string
  | Unsetenv string bool
  | Mmap ptr nat "map_flag list" ptr
  | Munmap ptr nat
  | Manual_init
  | Fuzzer_initialize
  | Target buffer "byte list"
  | Persistent_loop int bool
  | Read int nat int
  | Open_rdonly string int
  | Freopen_stderr string bool
  | Dup int int
  | Fdopen int bool
  | Set_report_fd int
  | Fopen_devnull bool
  | Dup2_devnull int
  | Fclose_devnull
  | Stdout message
  | Stderr message

text \<open>What a \<open>read\<close> finds: an error, or the bytes that are available.\<close>

datatype read_result = Read_error | Read_bytes "byte list"

text \<open>
  The oracles. \<open>MAX_FILE\<close> is the constant of \<open>config.h\<close>; \<open>LLVMFuzzerInitialize\<close>
  and \<open>sanitizer_set_report_fd\<close> are weak symbols, absent when \<open>None\<close> or \<open>False\<close>.
  \<open>sys_open\<close> and \<open>file_read\<close> are indexed by the position of the path in \<open>argv\<close>,
  \<open>afl_persistent_loop\<close> and \<open>stdin_read\<close> by the number of earlier calls.
\<close>

record world =
  MAX_FILE :: nat
  sys_unsetenv :: "string \<Rightarrow> bool"
  sys_mmap :: "ptr \<Rightarrow> nat \<Rightarrow> map_flag list \<Rightarrow> ptr"
  sys_freopen :: "string \<Rightarrow> int option"
  sys_dup :: "int \<Rightarrow> int"
  sys_fdopen :: "int \<Rightarrow> bool"
  sys_fopen_devnull :: "bool"
  sanitizer_set_report_fd :: "bool"
  LLVMFuzzerInitialize :: "(string list \<Rightarrow> string list) option"
  sys_open :: "nat \<Rightarrow> string \<Rightarrow> int"
  file_read :: "nat \<Rightarrow> read_result"
  afl_persistent_loop :: "nat \<Rightarrow> int \<Rightarrow> bool"
  stdin_read :: "nat \<Rightarrow> read_result"

text \<open>
  The globals of the file, the environment, the local \<open>N\<close> of \<open>main\<close>, and the trace.
  \<open>output_file\<close> holds the descriptor of the stream it points to, \<open>None\<close> for the
  null pointer of a static that was never assigned.
\<close>

record state =
  afl_area_ptr :: ptr
  afl_sharedmem_fuzzing :: int
  output_file :: "int option"
  environ :: "string \<Rightarrow> string option"
  var_N :: int
  trace :: "event list"

datatype halt = Aborted | Undefined_behaviour | Out_of_fuel

datatype 'a result = Done 'a state | Halt halt state

fun final_state :: "'a result \<Rightarrow> state" where
  "final_state (Done _ s) = s"
| "final_state (Halt _ s) = s"

fun returned :: "'a result \<Rightarrow> 'a option" where
  "returned (Done v _) = Some v"
| "returned (Halt _ _) = None"

fun halted :: "'a result \<Rightarrow> halt option" where
  "halted (Done _ _) = None"
| "halted (Halt h _) = Some h"

fun bind :: "'a result \<Rightarrow> ('a \<Rightarrow> state \<Rightarrow> 'b result) \<Rightarrow> 'b result" where
  "bind (Done v s) f = f v s"
| "bind (Halt h s) f = Halt h s"

definition emit :: "event \<Rightarrow> state \<Rightarrow> state" where
  "emit e s = s\<lparr>trace := trace s @ [e]\<rparr>"

text \<open>The events a run has added to the trace of the state it started from.\<close>

definition events_since :: "state \<Rightarrow> state \<Rightarrow> event list" where
  "events_since s s' = drop (length (trace s)) (trace s')"

subsection \<open>Constants and C library functions\<close>

definition MAX_DUMMY_SIZE :: nat where
  "MAX_DUMMY_SIZE = 256000"

definition INT_MAX :: int where
  "INT_MAX = 2147483647"

definition INT_MIN :: int where
  "INT_MIN = - 2147483648"

definition MAP_FAILED :: ptr where
  "MAP_FAILED = - 1"

definition NULL :: ptr where
  "NULL = 0"

definition STDOUT_FILENO :: int where
  "STDOUT_FILENO = 1"

definition STDERR_FILENO :: int where
  "STDERR_FILENO = 2"

text \<open>
  \<open>atoi\<close> of the C library, as ISO C defines it through \<open>strtol\<close> in base 10: white
  space is skipped, one sign is accepted, the longest run of decimal digits is the value,
  and no digits give 0. The standard leaves the result undefined when the value does not
  fit an \<open>int\<close>: that is \<open>None\<close>.
\<close>

definition isspace :: "char \<Rightarrow> bool" where
  "isspace c = (c \<in> set [CHR '' '', CHR 0x09, CHR 0x0A, CHR 0x0B, CHR 0x0C, CHR 0x0D])"

definition isdigit :: "char \<Rightarrow> bool" where
  "isdigit c = (48 \<le> (of_char c :: nat) \<and> (of_char c :: nat) \<le> 57)"

fun digits_value :: "int \<Rightarrow> string \<Rightarrow> int" where
  "digits_value acc [] = acc"
| "digits_value acc (c # cs) =
     (if isdigit c then digits_value (acc * 10 + (of_char c - 48)) cs else acc)"

definition strtol10 :: "string \<Rightarrow> int" where
  "strtol10 str =
     (case dropWhile isspace str of
        [] \<Rightarrow> 0
      | c # cs \<Rightarrow>
          if c = CHR ''-'' then - digits_value 0 cs
          else if c = CHR ''+'' then digits_value 0 cs
          else digits_value 0 (c # cs))"

definition atoi :: "string \<Rightarrow> int option" where
  "atoi str =
     (let v = strtol10 str in if INT_MIN \<le> v \<and> v \<le> INT_MAX then Some v else None)"

text \<open>\<open>memcpy (dst + off, src, length src)\<close> on a buffer that has the room.\<close>

definition memcpy :: "byte list \<Rightarrow> nat \<Rightarrow> byte list \<Rightarrow> byte list" where
  "memcpy dst off src = take off dst @ src @ drop (off + length src) dst"

definition c_string :: "string \<Rightarrow> byte list" where
  "c_string str = map of_char str @ [0]"

definition AFL_PERSISTENT :: "byte list" where
  "AFL_PERSISTENT = c_string ''##SIG_AFL_PERSISTENT##''"

definition AFL_DEFER_FORKSVR :: "byte list" where
  "AFL_DEFER_FORKSVR = c_string ''##SIG_AFL_DEFER_FORKSRV##''"

definition getenv :: "string \<Rightarrow> state \<Rightarrow> string option" where
  "getenv name s = environ s name"

text \<open>\<open>setenv (name, value, 1)\<close>: the third argument of the one call is 1, overwrite.\<close>

definition setenv :: "string \<Rightarrow> string \<Rightarrow> state \<Rightarrow> state" where
  "setenv name v s = emit (Setenv name v) (s\<lparr>environ := (environ s)(name \<mapsto> v)\<rparr>)"

text \<open>\<open>read (fd, buf, count)\<close>: the result, and the bytes now at the start of \<open>buf\<close>.\<close>

fun sys_read :: "read_result \<Rightarrow> nat \<Rightarrow> int \<times> byte list" where
  "sys_read Read_error count = (- 1, [])"
| "sys_read (Read_bytes bs) count = (int (length (take count bs)), take count bs)"

subsection \<open>The constructors\<close>

text \<open>\<open>__decide_deferred_forkserver\<close>, constructor of priority 0.\<close>

definition decide_deferred_forkserver :: "world \<Rightarrow> state \<Rightarrow> unit result" where
  "decide_deferred_forkserver w s =
     (if getenv ''AFL_DRIVER_DONT_DEFER'' s \<noteq> None then
        (if sys_unsetenv w ''__AFL_DEFER_FORKSRV'' then
           Done () (emit (Unsetenv ''__AFL_DEFER_FORKSRV'' True)
                      (s\<lparr>environ := (environ s)(''__AFL_DEFER_FORKSRV'' := None)\<rparr>))
         else
           Halt Aborted (emit (Stderr Msg_perror_unset)
                           (emit (Unsetenv ''__AFL_DEFER_FORKSRV'' False) s)))
      else Done () s)"

text \<open>One \<open>mmap\<close> of the source: the request and its answer go to the trace.\<close>

definition mmap :: "world \<Rightarrow> ptr \<Rightarrow> nat \<Rightarrow> map_flag list \<Rightarrow> state \<Rightarrow> state" where
  "mmap w addr len flags s =
     (let p = sys_mmap w addr len flags
      in emit (Mmap addr len flags p) (s\<lparr>afl_area_ptr := p\<rparr>))"

text \<open>\<open>__afl_protect\<close>, constructor of priority 1.\<close>

definition afl_protect :: "world \<Rightarrow> state \<Rightarrow> state" where
  "afl_protect w s0 =
     (let s1 = setenv ''__AFL_DEFER_FORKSRV'' ''1'' s0;
          s2 = mmap w 0x10000 MAX_DUMMY_SIZE [MAP_FIXED_NOREPLACE, MAP_SHARED, MAP_ANONYMOUS] s1;
          s3 = (if afl_area_ptr s2 = - 1
                then mmap w 0x10000 MAX_DUMMY_SIZE [MAP_SHARED, MAP_ANONYMOUS] s2 else s2);
          s4 = (if afl_area_ptr s3 = - 1
                then mmap w NULL MAX_DUMMY_SIZE [MAP_SHARED, MAP_ANONYMOUS] s3 else s3)
      in s4)"

text \<open>The constructors in the order of their priorities, before \<open>main\<close>.\<close>

definition constructors :: "world \<Rightarrow> state \<Rightarrow> unit result" where
  "constructors w s =
     bind (decide_deferred_forkserver w s) (\<lambda>_ s1. Done () (afl_protect w s1))"

subsection \<open>Redirection of the standard streams\<close>

definition maybe_duplicate_stderr :: "world \<Rightarrow> state \<Rightarrow> unit result" where
  "maybe_duplicate_stderr w s =
     (case getenv ''AFL_DRIVER_STDERR_DUPLICATE_FILENAME'' s of
        None \<Rightarrow> Done () s
      | Some stderr_duplicate_filename \<Rightarrow>
          (case sys_freopen w stderr_duplicate_filename of
             None \<Rightarrow>
               Halt Aborted (emit (Stderr Msg_freopen_failed)
                               (emit (Freopen_stderr stderr_duplicate_filename False) s))
           | Some fd \<Rightarrow>
               Done () ((emit (Freopen_stderr stderr_duplicate_filename True) s)
                          \<lparr>output_file := Some fd\<rparr>)))"

definition discard_output :: "world \<Rightarrow> int \<Rightarrow> state \<Rightarrow> unit result" where
  "discard_output w fd s =
     (if \<not> sys_fopen_devnull w then Halt Aborted (emit (Fopen_devnull False) s)
      else Done () (emit Fclose_devnull (emit (Dup2_devnull fd) (emit (Fopen_devnull True) s))))"

definition close_stdout :: "world \<Rightarrow> state \<Rightarrow> unit result" where
  "close_stdout w s = discard_output w STDOUT_FILENO s"

text \<open>
  \<open>dup_and_close_stderr\<close>. \<open>fileno\<close> of a null stream is undefined; \<open>main\<close> assigns
  \<open>output_file\<close> before the call.
\<close>

definition dup_and_close_stderr :: "world \<Rightarrow> state \<Rightarrow> unit result" where
  "dup_and_close_stderr w s =
     (case output_file s of
        None \<Rightarrow> Halt Undefined_behaviour s
      | Some output_fileno \<Rightarrow>
          (let output_fd = sys_dup w output_fileno;
               s1 = emit (Dup output_fileno output_fd) s
           in if output_fd \<le> 0 then Halt Aborted s1
              else if \<not> sys_fdopen w output_fd then Halt Aborted (emit (Fdopen output_fd False) s1)
              else
                (let s2 = emit (Fdopen output_fd True) s1
                 in if \<not> sanitizer_set_report_fd w then Done () s2
                    else discard_output w output_fileno (emit (Set_report_fd output_fd) s2))))"

definition maybe_close_fd_mask :: "world \<Rightarrow> state \<Rightarrow> unit result" where
  "maybe_close_fd_mask w s =
     (case getenv ''AFL_DRIVER_CLOSE_FD_MASK'' s of
        None \<Rightarrow> Done () s
      | Some fd_mask_str \<Rightarrow>
          (case atoi fd_mask_str of
             None \<Rightarrow> Halt Undefined_behaviour s
           | Some fd_mask \<Rightarrow>
               bind (if fd_mask AND 2 \<noteq> 0 then dup_and_close_stderr w s else Done () s)
                 (\<lambda>_ s1. if fd_mask AND 1 \<noteq> 0 then close_stdout w s1 else Done () s1)))"

subsection \<open>Batch mode\<close>

text \<open>
  The loop of \<open>ExecuteFilesOnyByOne\<close> from index \<open>i\<close>, over the paths \<open>argv[i]\<close>,
  \<open>argv[i + 1]\<close>, ... that remain.
\<close>

fun execute_files_from :: "world \<Rightarrow> nat \<Rightarrow> string list \<Rightarrow> state \<Rightarrow> state" where
  "execute_files_from w i [] s = s"
| "execute_files_from w i (path # paths) s =
     (let fd = sys_open w i path;
          s1 = emit (Open_rdonly path fd) s
      in if fd = - 1 then execute_files_from w (Suc i) paths s1
         else
           (let (length_read, data) = sys_read (file_read w i) (MAX_FILE w);
                s2 = emit (Read fd (MAX_FILE w) length_read) s1;
                s3 = (if length_read > 0
                      then emit (Stdout Msg_exec_ok)
                             (emit (Target Buf data)
                                (emit (Stdout (Msg_reading (nat length_read) path)) s2))
                      else s2)
            in execute_files_from w (Suc i) paths s3))"

definition ExecuteFilesOnyByOne :: "world \<Rightarrow> string list \<Rightarrow> state \<Rightarrow> int result" where
  "ExecuteFilesOnyByOne w argv s = Done 0 (execute_files_from w 1 (drop 1 argv) s)"

subsection \<open>Persistent mode\<close>

text \<open>
  The \<open>while\<close> loop of \<open>main\<close>; \<open>k\<close> counts the calls of \<open>__afl_persistent_loop\<close>
  made so far, and one unit of fuel pays for one call.
\<close>

fun persistent_loop :: "nat \<Rightarrow> world \<Rightarrow> nat \<Rightarrow> state \<Rightarrow> unit result" where
  "persistent_loop 0 w k s = Halt Out_of_fuel s"
| "persistent_loop (Suc fuel) w k s =
     (let go = afl_persistent_loop w k (var_N s);
          s1 = emit (Persistent_loop (var_N s) go) s
      in if go then
           (let (r, data) = sys_read (stdin_read w k) 1024000;
                s2 = emit (Read 0 1024000 r) s1;
                s3 = (if r > 0 then emit (Target Buf data) s2 else s2)
            in persistent_loop fuel w (Suc k) s3)
         else Done () s1)"

subsection \<open>main\<close>

text \<open>Lines 269 to 292: the banner, the redirections and the optional initializer.\<close>

definition main_setup :: "world \<Rightarrow> string list \<Rightarrow> state \<Rightarrow> (string list) result" where
  "main_setup w argv s0 =
     (let s1 = emit (Stderr (Msg_dummy_map_at (afl_area_ptr s0))) s0;
          s2 = emit (Stdout (Msg_info (case argv of [] \<Rightarrow> [] | a # _ \<Rightarrow> a))) s1;
          s3 = s2\<lparr>output_file := Some STDERR_FILENO\<rparr>
      in bind (maybe_duplicate_stderr w s3) (\<lambda>_ s4.
         bind (maybe_close_fd_mask w s4) (\<lambda>_ s5.
           (case LLVMFuzzerInitialize w of
              None \<Rightarrow> Done argv s5
            | Some init \<Rightarrow>
                Done (init argv)
                  (emit (Stderr Msg_continue)
                     (emit Fuzzer_initialize (emit (Stderr Msg_running_init) s5)))))))"

text \<open>The 64 bytes of \<open>dummy_input\<close> after the two \<open>memcpy\<close> calls.\<close>

definition dummy_input :: "byte list" where
  "dummy_input = memcpy (memcpy (replicate 64 0) 0 AFL_PERSISTENT) 32 AFL_DEFER_FORKSVR"

text \<open>\<open>munmap\<close> of the placeholder, the null assignment and \<open>__afl_manual_init\<close>.\<close>

definition release_and_init :: "state \<Rightarrow> state" where
  "release_and_init s =
     emit Manual_init ((emit (Munmap (afl_area_ptr s) MAX_DUMMY_SIZE) s)\<lparr>afl_area_ptr := NULL\<rparr>)"

text \<open>Lines 316 to 344: from the assertion to the end of \<open>main\<close>.\<close>

definition main_persistent :: "nat \<Rightarrow> world \<Rightarrow> string list \<Rightarrow> state \<Rightarrow> int result" where
  "main_persistent fuel w argv s =
     (if \<not> var_N s > 0 then Halt Aborted (emit (Stderr Msg_assert_N_positive) s)
      else
        (let s1 = (if getenv ''AFL_DISABLE_LLVM_INSTRUMENTATION'' s = None
                   then release_and_init s else s);
             s2 = emit (Stderr (Msg_dummy_map_now (afl_area_ptr s1))) s1;
             s3 = emit (Target Dummy_input (take 1 dummy_input)) s2
         in bind (persistent_loop fuel w 0 s3) (\<lambda>_ s4.
              Done 0 (emit (Stdout (Msg_success (case argv of [] \<Rightarrow> [] | a # _ \<Rightarrow> a))) s4))))"

text \<open>Lines 301 to 314: the choice of \<open>N\<close> and of the mode, on the arguments as
  \<open>LLVMFuzzerInitialize\<close> left them; \<open>argc\<close> is the length of \<open>argv\<close>.\<close>

definition main_dispatch :: "nat \<Rightarrow> world \<Rightarrow> string list \<Rightarrow> state \<Rightarrow> int result" where
  "main_dispatch fuel w argv s0 =
     (let s = s0\<lparr>var_N := INT_MAX\<rparr>;
          argc = length argv
      in if argc = 2 \<and> take 1 (argv ! 1) = ''-'' then
           (case atoi (drop 1 (argv ! 1)) of
              None \<Rightarrow> Halt Undefined_behaviour s
            | Some n \<Rightarrow> main_persistent fuel w argv (s\<lparr>var_N := n\<rparr>))
         else if argc = 2 then
           (case atoi (argv ! 1) of
              None \<Rightarrow> Halt Undefined_behaviour s
            | Some n \<Rightarrow>
                if n > 0 then
                  main_persistent fuel w argv
                    (emit (Stdout (Msg_deprecated (argv ! 0) n)) (s\<lparr>var_N := n\<rparr>))
                else
                  ExecuteFilesOnyByOne w argv
                    (release_and_init (s\<lparr>var_N := n, afl_sharedmem_fuzzing := 0\<rparr>)))
         else if argc > 1 then
           ExecuteFilesOnyByOne w argv (release_and_init (s\<lparr>afl_sharedmem_fuzzing := 0\<rparr>))
         else main_persistent fuel w argv s)"

definition main :: "nat \<Rightarrow> world \<Rightarrow> string list \<Rightarrow> state \<Rightarrow> int result" where
  "main fuel w argv s = bind (main_setup w argv s) (\<lambda>argv' s'. main_dispatch fuel w argv' s')"

text \<open>The process: the constructors, then \<open>main\<close>.\<close>

definition process :: "nat \<Rightarrow> world \<Rightarrow> string list \<Rightarrow> state \<Rightarrow> int result" where
  "process fuel w argv s = bind (constructors w s) (\<lambda>_ s'. main fuel w argv s')"

subsection \<open>Vocabulary of the properties\<close>

fun is_munmap :: "event \<Rightarrow> bool" where
  "is_munmap (Munmap _ _) = True"
| "is_munmap _ = False"

fun is_manual_init :: "event \<Rightarrow> bool" where
  "is_manual_init Manual_init = True"
| "is_manual_init _ = False"

definition release_or_signal :: "event \<Rightarrow> bool" where
  "release_or_signal e = (is_munmap e \<or> is_manual_init e)"

fun is_target :: "event \<Rightarrow> bool" where
  "is_target (Target _ _) = True"
| "is_target _ = False"

fun is_warm_up :: "event \<Rightarrow> bool" where
  "is_warm_up (Target Dummy_input _) = True"
| "is_warm_up _ = False"

fun is_loop_query :: "event \<Rightarrow> bool" where
  "is_loop_query (Persistent_loop _ _) = True"
| "is_loop_query _ = False"

fun is_open :: "event \<Rightarrow> bool" where
  "is_open (Open_rdonly _ _) = True"
| "is_open _ = False"

fun is_discard :: "event \<Rightarrow> bool" where
  "is_discard (Dup2_devnull _) = True"
| "is_discard _ = False"

text \<open>The events of the redirections and of the initializer.\<close>

fun setup_event :: "event \<Rightarrow> bool" where
  "setup_event (Stdout _) = True"
| "setup_event (Stderr _) = True"
| "setup_event (Freopen_stderr _ _) = True"
| "setup_event (Dup _ _) = True"
| "setup_event (Fdopen _ _) = True"
| "setup_event (Set_report_fd _) = True"
| "setup_event (Fopen_devnull _) = True"
| "setup_event (Dup2_devnull _) = True"
| "setup_event Fclose_devnull = True"
| "setup_event Fuzzer_initialize = True"
| "setup_event _ = False"

text \<open>The events of the persistent loop, and those of the batch loop.\<close>

fun loop_event :: "event \<Rightarrow> bool" where
  "loop_event (Persistent_loop _ _) = True"
| "loop_event (Read _ _ _) = True"
| "loop_event (Target Buf _) = True"
| "loop_event _ = False"

fun batch_event :: "event \<Rightarrow> bool" where
  "batch_event (Open_rdonly _ _) = True"
| "batch_event (Read _ _ _) = True"
| "batch_event (Target Buf _) = True"
| "batch_event (Stdout _) = True"
| "batch_event _ = False"

text \<open>The events after the warm-up call: those of the loop, and the closing message.\<close>

fun tail_event :: "event \<Rightarrow> bool" where
  "tail_event (Persistent_loop _ _) = True"
| "tail_event (Read _ _ _) = True"
| "tail_event (Target Buf _) = True"
| "tail_event (Stdout _) = True"
| "tail_event _ = False"

text \<open>
  A step from \<open>s\<close> to \<open>s'\<close> that only appends events of one kind to the trace and
  leaves the map pointer, the environment and \<open>N\<close> alone.
\<close>

definition keeps :: "(event \<Rightarrow> bool) \<Rightarrow> state \<Rightarrow> state \<Rightarrow> bool" where
  "keeps P s s' =
     (trace s' = trace s @ events_since s s' \<and> list_all P (events_since s s') \<and>
      afl_area_ptr s' = afl_area_ptr s \<and> environ s' = environ s \<and> var_N s' = var_N s)"

text \<open>What lines 318 to 322 add to the trace: the release of the placeholder and the
  signal, unless \<open>AFL_DISABLE_LLVM_INSTRUMENTATION\<close> is set.\<close>

definition release_events :: "state \<Rightarrow> event list" where
  "release_events s =
     (if getenv ''AFL_DISABLE_LLVM_INSTRUMENTATION'' s = None
      then [Munmap (afl_area_ptr s) MAX_DUMMY_SIZE, Manual_init] else [])"

text \<open>The three \<open>mmap\<close> calls of \<open>__afl_protect\<close> and what the system answers.\<close>

definition first_attempt :: "world \<Rightarrow> ptr" where
  "first_attempt w =
     sys_mmap w 0x10000 MAX_DUMMY_SIZE [MAP_FIXED_NOREPLACE, MAP_SHARED, MAP_ANONYMOUS]"

definition second_attempt :: "world \<Rightarrow> ptr" where
  "second_attempt w = sys_mmap w 0x10000 MAX_DUMMY_SIZE [MAP_SHARED, MAP_ANONYMOUS]"

definition third_attempt :: "world \<Rightarrow> ptr" where
  "third_attempt w = sys_mmap w NULL MAX_DUMMY_SIZE [MAP_SHARED, MAP_ANONYMOUS]"

text \<open>
  ``The unmap happens only after the deferred-init signal has been sent'': every
  \<open>Munmap\<close> of a trace has a \<open>Manual_init\<close> before it. The flag says whether the
  signal has been seen.
\<close>

fun unmap_only_after_signal :: "bool \<Rightarrow> event list \<Rightarrow> bool" where
  "unmap_only_after_signal signalled [] = True"
| "unmap_only_after_signal signalled (Manual_init # es) = unmap_only_after_signal True es"
| "unmap_only_after_signal signalled (Munmap p n # es) =
     (signalled \<and> unmap_only_after_signal signalled es)"
| "unmap_only_after_signal signalled (e # es) = unmap_only_after_signal signalled es"

text \<open>The arguments \<open>main\<close> chooses its mode on: those \<open>LLVMFuzzerInitialize\<close> leaves.\<close>

definition argv_after_init :: "world \<Rightarrow> string list \<Rightarrow> string list" where
  "argv_after_init w argv = (case LLVMFuzzerInitialize w of None \<Rightarrow> argv | Some init \<Rightarrow> init argv)"

text \<open>A decimal integer as one writes it: one digit or more, and nothing else.\<close>

definition decimal_literal :: "string \<Rightarrow> bool" where
  "decimal_literal str = (str \<noteq> [] \<and> list_all isdigit str)"

text \<open>The value of a decimal integer, read digit by digit.\<close>

definition decimal_value :: "string \<Rightarrow> int" where
  "decimal_value str = foldl (\<lambda>acc c. acc * 10 + (of_char c - 48)) 0 str"

text \<open>A string in which, after optional white space and one optional sign, no digit
  follows: there is no number at its start.\<close>

definition no_leading_number :: "string \<Rightarrow> bool" where
  "no_leading_number str =
     (case dropWhile isspace str of
        [] \<Rightarrow> True
      | c # cs \<Rightarrow>
          if c = CHR ''-'' \<or> c = CHR ''+'' then (case cs of [] \<Rightarrow> True | d # _ \<Rightarrow> \<not> isdigit d)
          else \<not> isdigit c)"

text \<open>
  The argument lists on which lines 302 to 305 keep \<open>main\<close> on the way to the
  persistent loop: no argument, one argument that begins with \<open>-\<close>, or one argument
  that \<open>atoi\<close> reads as a positive number.
\<close>

definition selects_persistent :: "string list \<Rightarrow> bool" where
  "selects_persistent argv =
     (length argv \<le> 1 \<or>
      (length argv = 2 \<and>
       (take 1 (argv ! 1) = ''-'' \<or>
        (case atoi (argv ! 1) of None \<Rightarrow> False | Some n \<Rightarrow> n > 0))))"

text \<open>
  The argument lists that lines 306 to 314 send to batch mode: two arguments or more, or
  one argument that does not begin with \<open>-\<close> and that \<open>atoi\<close> reads as zero or less.
\<close>

definition selects_batch :: "string list \<Rightarrow> bool" where
  "selects_batch argv =
     (length argv > 2 \<or>
      (length argv = 2 \<and> take 1 (argv ! 1) \<noteq> ''-'' \<and>
       (case atoi (argv ! 1) of None \<Rightarrow> False | Some n \<Rightarrow> n \<le> 0)))"

text \<open>What one turn of the persistent loop, the one after \<open>k\<close> earlier calls, adds to
  the trace when \<open>__afl_persistent_loop\<close> answers true.\<close>

definition iteration_events :: "world \<Rightarrow> int \<Rightarrow> nat \<Rightarrow> event list" where
  "iteration_events w n k =
     (let (r, data) = sys_read (stdin_read w k) 1024000
      in [Persistent_loop n True, Read 0 1024000 r] @ (if r > 0 then [Target Buf data] else []))"

text \<open>The target calls batch mode owes to the paths \<open>argv[i]\<close>, \<open>argv[i + 1]\<close>, ...:
  one for each path that opens and gives more than zero bytes, none for the others.\<close>

fun batch_invocations :: "world \<Rightarrow> nat \<Rightarrow> string list \<Rightarrow> event list" where
  "batch_invocations w i [] = []"
| "batch_invocations w i (path # paths) =
     (if sys_open w i path \<noteq> - 1 \<and> fst (sys_read (file_read w i) (MAX_FILE w)) > 0
      then [Target Buf (snd (sys_read (file_read w i) (MAX_FILE w)))] else [])
     @ batch_invocations w (Suc i) paths"

subsection \<open>Concrete runs\<close>

definition initial_state :: "(string \<Rightarrow> string option) \<Rightarrow> state" where
  "initial_state env =
     \<lparr>afl_area_ptr = 0, afl_sharedmem_fuzzing = 0, output_file = None, environ = env,
      var_N = 0, trace = []\<rparr>"

text \<open>
  A world without sanitizer and without initializer: \<open>mmap\<close> grants the address asked
  for, a path other than \<open>missing\<close> opens and holds the two bytes \<open>HI\<close>, the engine
  allows two turns of the loop, and the first \<open>read\<close> of descriptor 0 finds nothing.
\<close>

definition example_world :: world where
  "example_world =
     \<lparr>MAX_FILE = 1048576,
      sys_unsetenv = (\<lambda>_. True),
      sys_mmap = (\<lambda>addr _ _. if addr = 0 then 0x7F0000000000 else addr),
      sys_freopen = (\<lambda>_. Some 2),
      sys_dup = (\<lambda>_. 3),
      sys_fdopen = (\<lambda>_. True),
      sys_fopen_devnull = True,
      sanitizer_set_report_fd = False,
      LLVMFuzzerInitialize = None,
      sys_open = (\<lambda>i path. if path = ''missing'' then - 1 else 3 + int i),
      file_read = (\<lambda>i. Read_bytes [72, 73]),
      afl_persistent_loop = (\<lambda>k n. k < 2),
      stdin_read = (\<lambda>k. if k = 0 then Read_bytes [] else Read_bytes [65])\<rparr>"

text \<open>The same world with every \<open>mmap\<close> failing.\<close>

definition no_memory_world :: world where
  "no_memory_world = example_world\<lparr>sys_mmap := (\<lambda>_ _ _. MAP_FAILED)\<rparr>"

text \<open>The same world with an engine that never ends the loop and an input at its end.\<close>

definition endless_world :: world where
  "endless_world =
     example_world\<lparr>afl_persistent_loop := (\<lambda>_ _. True), stdin_read := (\<lambda>_. Read_bytes [])\<rparr>"

text \<open>The state \<open>main\<close> starts from, under an environment: the constructors have run.\<close>

definition started :: "(string \<Rightarrow> string option) \<Rightarrow> state" where
  "started env = final_state (constructors example_world (initial_state env))"

section \<open>Traces and frames\<close>

lemma emit_simps [simp]:
  "trace (emit e s) = trace s @ [e]"
  "afl_area_ptr (emit e s) = afl_area_ptr s"
  "environ (emit e s) = environ s"
  "var_N (emit e s) = var_N s"
  "output_file (emit e s) = output_file s"
  "afl_sharedmem_fuzzing (emit e s) = afl_sharedmem_fuzzing s"
  "getenv name (emit e s) = getenv name s"
  by (simp_all add: emit_def getenv_def)

lemma events_since_self [simp]: "events_since s s = []"
  by (simp add: events_since_def)

lemma events_since_append:
  "trace s' = trace s @ es \<Longrightarrow> events_since s s' = es"
  by (simp add: events_since_def)

lemma keepsI:
  "trace s' = trace s @ es \<Longrightarrow> list_all P es \<Longrightarrow> afl_area_ptr s' = afl_area_ptr s \<Longrightarrow>
   environ s' = environ s \<Longrightarrow> var_N s' = var_N s \<Longrightarrow> keeps P s s'"
  by (simp add: keeps_def events_since_def)

lemma keeps_refl [simp]: "keeps P s s"
  by (simp add: keeps_def)

lemma keeps_trans:
  assumes "keeps P s s1" and "keeps P s1 s2"
  shows "keeps P s s2"
proof -
  have t: "trace s2 = trace s @ (events_since s s1 @ events_since s1 s2)"
    using assms by (simp add: keeps_def)
  have e: "events_since s s2 = events_since s s1 @ events_since s1 s2"
    by (rule events_since_append [OF t])
  show ?thesis
    using assms t by (simp add: keeps_def e)
qed

lemma keeps_emit: "P e \<Longrightarrow> keeps P s s' \<Longrightarrow> keeps P s (emit e s')"
  by (rule keeps_trans [where ?s1.0 = s']) (auto intro!: keepsI [where es = "[e]"])

lemma keeps_output_file: "keeps P s s' \<Longrightarrow> keeps P s (s'\<lparr>output_file := x\<rparr>)"
  by (simp add: keeps_def events_since_def)

lemma keeps_bind:
  assumes "keeps P s (final_state r)"
    and "\<And>v s1. r = Done v s1 \<Longrightarrow> keeps P s1 (final_state (f v s1))"
  shows "keeps P s (final_state (bind r f))"
proof (cases r)
  case (Done v s1)
  with assms show ?thesis by (auto intro: keeps_trans)
next
  case (Halt h s1)
  with assms show ?thesis by simp
qed

lemma keeps_maybe_duplicate_stderr:
  "keeps setup_event s (final_state (maybe_duplicate_stderr w s))"
  by (auto simp: maybe_duplicate_stderr_def intro!: keeps_emit keeps_output_file split: option.splits)

lemma keeps_discard_output: "keeps setup_event s (final_state (discard_output w fd s))"
  by (auto simp: discard_output_def intro!: keeps_emit)

lemma keeps_dup_and_close_stderr:
  "keeps setup_event s (final_state (dup_and_close_stderr w s))"
  by (auto simp: dup_and_close_stderr_def Let_def
      intro!: keeps_emit keeps_trans [OF _ keeps_discard_output] split: option.splits)

lemma keeps_maybe_close_fd_mask:
  "keeps setup_event s (final_state (maybe_close_fd_mask w s))"
  by (auto simp: maybe_close_fd_mask_def close_stdout_def
      intro!: keeps_bind keeps_dup_and_close_stderr keeps_discard_output split: option.splits)

lemma keeps_main_setup: "keeps setup_event s (final_state (main_setup w argv s))"
  unfolding main_setup_def Let_def
  apply (rule keeps_trans [where ?s1.0 = "(emit (Stdout (Msg_info (case argv of [] \<Rightarrow> [] | a # _ \<Rightarrow> a)))
         (emit (Stderr (Msg_dummy_map_at (afl_area_ptr s))) s))\<lparr>output_file := Some STDERR_FILENO\<rparr>"])
   apply (auto intro!: keeps_emit keeps_output_file keeps_bind keeps_maybe_duplicate_stderr
      keeps_maybe_close_fd_mask split: option.splits)
  done

lemma main_setup_argv: "main_setup w argv s = Done a s1 \<Longrightarrow> a = argv_after_init w argv"
  by (cases "maybe_duplicate_stderr w (emit (Stdout (Msg_info (case argv of [] \<Rightarrow> [] | a # _ \<Rightarrow> a)))
         (emit (Stderr (Msg_dummy_map_at (afl_area_ptr s))) s)\<lparr>output_file := Some STDERR_FILENO\<rparr>)";
      cases "maybe_close_fd_mask w (final_state (maybe_duplicate_stderr w (emit (Stdout (Msg_info (case argv of [] \<Rightarrow> [] | a # _ \<Rightarrow> a)))
         (emit (Stderr (Msg_dummy_map_at (afl_area_ptr s))) s)\<lparr>output_file := Some STDERR_FILENO\<rparr>)))")
     (auto simp: main_setup_def argv_after_init_def Let_def split: option.splits)

lemma keeps_persistent_loop:
  "keeps loop_event s (final_state (persistent_loop fuel w k s))"
proof (induction fuel arbitrary: k s)
  case 0
  show ?case by simp
next
  case (Suc fuel)
  show ?case
    by (auto simp: Let_def split: prod.splits intro!: keeps_emit keeps_trans [OF _ Suc.IH])
qed

lemma keeps_execute_files_from:
  "keeps batch_event s (execute_files_from w i paths s)"
proof (induction paths arbitrary: i s)
  case Nil
  show ?case by simp
next
  case (Cons path paths)
  show ?case
    by (auto simp: Let_def split: prod.splits intro!: keeps_emit keeps_trans [OF _ Cons.IH])
qed


lemma halted_bind:
  assumes "halted r \<noteq> Some h" and "\<And>v s1. halted (f v s1) \<noteq> Some h"
  shows "halted (bind r f) \<noteq> Some h"
  using assms by (cases r) auto

lemma halted_maybe_duplicate_stderr: "halted (maybe_duplicate_stderr w s) \<noteq> Some Out_of_fuel"
  by (simp add: maybe_duplicate_stderr_def split: option.splits)

lemma halted_discard_output: "halted (discard_output w fd s) \<noteq> Some Out_of_fuel"
  by (simp add: discard_output_def)

lemma halted_dup_and_close_stderr: "halted (dup_and_close_stderr w s) \<noteq> Some Out_of_fuel"
  by (simp add: dup_and_close_stderr_def Let_def halted_discard_output split: option.splits)

lemma halted_bindD:
  "halted (bind r f) = Some h \<Longrightarrow>
   halted r = Some h \<or> (\<exists>v s1. r = Done v s1 \<and> halted (f v s1) = Some h)"
  by (cases r) auto

lemma halted_maybe_close_fd_mask: "halted (maybe_close_fd_mask w s) \<noteq> Some Out_of_fuel"
  by (auto simp: maybe_close_fd_mask_def close_stdout_def halted_discard_output
      halted_dup_and_close_stderr dest!: halted_bindD split: option.splits)

lemma halted_main_setup: "halted (main_setup w argv s) \<noteq> Some Out_of_fuel"
  unfolding main_setup_def Let_def
  by (intro halted_bind halted_maybe_duplicate_stderr halted_maybe_close_fd_mask)
     (simp split: option.splits)

lemma halted_persistent_loop:
  "halted (persistent_loop fuel w k s) = None \<or> halted (persistent_loop fuel w k s) = Some Out_of_fuel"
  by (induction fuel arbitrary: k s) (auto simp: Let_def split: prod.splits)

lemma keeps_grows: "keeps P s s' \<Longrightarrow> trace s' = trace s @ events_since s s'"
  by (simp add: keeps_def)

lemma events_since_emit [simp]:
  "events_since s (emit e s) = [e]"
  by (simp add: events_since_def)

lemma events_since_step:
  "trace s1 = trace s @ es \<Longrightarrow> keeps P s1 s2 \<Longrightarrow> events_since s s2 = es @ events_since s1 s2"
  by (rule events_since_append) (simp add: keeps_def)

lemma list_all_not_ex:
  assumes "list_all P es" and "\<And>e. P e \<Longrightarrow> \<not> Q e"
  shows "\<not> list_ex Q es"
  using assms by (auto simp: list_all_iff list_ex_iff)

lemma list_all_filter_empty:
  assumes "list_all P es" and "\<And>e. P e \<Longrightarrow> \<not> Q e"
  shows "filter Q es = []"
  using assms by (auto simp: list_all_iff filter_empty_conv)

lemma batch_event_not_loop_query: "batch_event e \<Longrightarrow> \<not> is_loop_query e"
  by (cases e) auto

lemma targets_execute_files_from:
  "filter is_target (events_since s (execute_files_from w i paths s)) = batch_invocations w i paths"
proof (induction paths arbitrary: i s)
  case Nil
  show ?case by simp
next
  case (Cons path paths)
  show ?case
  proof (cases "sys_open w i path = - 1")
    case True
    have "events_since s (execute_files_from w (Suc i) paths (emit (Open_rdonly path (- 1)) s)) =
          [Open_rdonly path (- 1)] @
          events_since (emit (Open_rdonly path (- 1)) s)
            (execute_files_from w (Suc i) paths (emit (Open_rdonly path (- 1)) s))"
      by (rule events_since_step [OF _ keeps_execute_files_from]) simp
    with True show ?thesis
      by (simp add: Let_def Cons.IH)
  next
    case False
    obtain r d where rd: "sys_read (file_read w i) (MAX_FILE w) = (r, d)"
      by (cases "sys_read (file_read w i) (MAX_FILE w)")
    let ?fd = "sys_open w i path"
    let ?s2 = "emit (Read ?fd (MAX_FILE w) r) (emit (Open_rdonly path ?fd) s)"
    let ?s3 = "if r > 0 then emit (Stdout Msg_exec_ok) (emit (Target Buf d)
                 (emit (Stdout (Msg_reading (nat r) path)) ?s2)) else ?s2"
    let ?es = "[Open_rdonly path ?fd, Read ?fd (MAX_FILE w) r] @
               (if r > 0 then [Stdout (Msg_reading (nat r) path), Target Buf d, Stdout Msg_exec_ok] else [])"
    have "events_since s (execute_files_from w (Suc i) paths ?s3) =
          ?es @ events_since ?s3 (execute_files_from w (Suc i) paths ?s3)"
      by (rule events_since_step [OF _ keeps_execute_files_from]) simp
    with False rd show ?thesis
      by (simp add: Let_def Cons.IH)
  qed
qed

lemma persistent_loop_unroll:
  assumes "\<forall>j<m. afl_persistent_loop w (k + j) (var_N s)" and "m \<le> fuel"
  shows "persistent_loop fuel w k s =
         persistent_loop (fuel - m) w (k + m)
           (s\<lparr>trace := trace s @ concat (map (iteration_events w (var_N s)) [k..<k + m])\<rparr>)"
  using assms
proof (induction m arbitrary: fuel k s)
  case 0
  show ?case by simp
next
  case (Suc m)
  then obtain fuel' where fuel: "fuel = Suc fuel'" and le: "m \<le> fuel'"
    by (cases fuel) auto
  obtain r d where rd: "sys_read (stdin_read w k) 1024000 = (r, d)"
    by (cases "sys_read (stdin_read w k) 1024000")
  let ?s3 = "s\<lparr>trace := trace s @ iteration_events w (var_N s) k\<rparr>"
  have go: "afl_persistent_loop w k (var_N s)"
    using Suc.prems(1) [rule_format, of 0] by simp
  have step: "persistent_loop fuel w k s = persistent_loop fuel' w (Suc k) ?s3"
    using go rd by (simp add: fuel Let_def iteration_events_def emit_def)
  have "\<forall>j<m. afl_persistent_loop w (Suc k + j) (var_N ?s3)"
    using Suc.prems(1) by (auto dest: spec [where x = "Suc j" for j])
  from Suc.IH [OF this le]
  have ih: "persistent_loop fuel' w (Suc k) ?s3 =
        persistent_loop (fuel' - m) w (Suc k + m)
          (?s3\<lparr>trace := trace ?s3 @ concat (map (iteration_events w (var_N ?s3)) [Suc k..<Suc k + m])\<rparr>)" .
  have list: "[k..<k + Suc m] = k # [Suc k..<Suc k + m]"
    by (simp add: upt_conv_Cons)
  have "persistent_loop (fuel' - m) w (Suc k + m)
          (?s3\<lparr>trace := trace ?s3 @ concat (map (iteration_events w (var_N ?s3)) [Suc k..<Suc k + m])\<rparr>) =
        persistent_loop (fuel - Suc m) w (k + Suc m)
          (s\<lparr>trace := trace s @ concat (map (iteration_events w (var_N s)) [k..<k + Suc m])\<rparr>)"
    unfolding list fuel by simp
  with step ih show ?case
    by (simp only:)
qed

lemma iteration_without_input:
  "fst (sys_read (stdin_read w j) 1024000) \<le> 0 \<Longrightarrow>
   iteration_events w n j =
     [Persistent_loop n True, Read 0 1024000 (fst (sys_read (stdin_read w j) 1024000))]"
  by (cases "sys_read (stdin_read w j) 1024000") (simp add: iteration_events_def)

section \<open>The placeholder map (\<open>__afl_protect\<close>)\<close>

text \<open>
  Claim C5 says that the region pointer is left null when all three attempts fail. With
  every \<open>mmap\<close> failing, the pointer holds the answer of the third call, which is
  \<open>MAP_FAILED\<close> and not the null pointer.
\<close>

theorem afl_protect_all_fail_counterexample:
  "first_attempt no_memory_world = MAP_FAILED \<and> second_attempt no_memory_world = MAP_FAILED \<and>
   third_attempt no_memory_world = MAP_FAILED \<and>
   afl_area_ptr (afl_protect no_memory_world (initial_state Map.empty)) \<noteq> NULL"
  by code_simp

text \<open>
  C5, as amended: \<open>__afl_protect\<close> asks for the fixed address \<open>0x10000\<close> with
  \<open>MAP_FIXED_NOREPLACE\<close>, then, only if that failed, for the same address without that
  flag, then, only if that failed too, for an address of the system's choice; the region
  pointer is the answer of the first attempt that did not fail, and the answer of the third
  attempt, \<open>MAP_FAILED\<close>, when all three failed.
\<close>

theorem afl_protect_first_success:
  "afl_area_ptr (afl_protect w s) =
     (if first_attempt w \<noteq> MAP_FAILED then first_attempt w
      else if second_attempt w \<noteq> MAP_FAILED then second_attempt w
      else third_attempt w) \<and>
   events_since s (afl_protect w s) =
     Setenv ''__AFL_DEFER_FORKSRV'' ''1'' #
     Mmap 0x10000 MAX_DUMMY_SIZE [MAP_FIXED_NOREPLACE, MAP_SHARED, MAP_ANONYMOUS] (first_attempt w) #
     (if first_attempt w \<noteq> MAP_FAILED then []
      else Mmap 0x10000 MAX_DUMMY_SIZE [MAP_SHARED, MAP_ANONYMOUS] (second_attempt w) #
        (if second_attempt w \<noteq> MAP_FAILED then []
         else [Mmap NULL MAX_DUMMY_SIZE [MAP_SHARED, MAP_ANONYMOUS] (third_attempt w)])) \<and>
   (first_attempt w = MAP_FAILED \<and> second_attempt w = MAP_FAILED \<and> third_attempt w = MAP_FAILED
      \<longrightarrow> afl_area_ptr (afl_protect w s) = MAP_FAILED \<and> MAP_FAILED \<noteq> NULL)"
  by (simp add: afl_protect_def mmap_def setenv_def first_attempt_def second_attempt_def
      third_attempt_def MAP_FAILED_def NULL_def Let_def events_since_def)

theorem afl_protect_first_success_witness:
  "first_attempt no_memory_world = MAP_FAILED \<and> second_attempt no_memory_world = MAP_FAILED \<and>
   third_attempt no_memory_world = MAP_FAILED \<and>
   afl_area_ptr (afl_protect no_memory_world (initial_state Map.empty)) = MAP_FAILED \<and>
   MAP_FAILED \<noteq> NULL \<and>
   afl_area_ptr (afl_protect example_world (initial_state Map.empty)) = 0x10000"
proof -
  have h: "first_attempt no_memory_world = MAP_FAILED \<and> second_attempt no_memory_world = MAP_FAILED \<and>
   third_attempt no_memory_world = MAP_FAILED"
    by code_simp
  have e: "first_attempt example_world = 0x10000 \<and> first_attempt example_world \<noteq> MAP_FAILED"
    by code_simp
  show ?thesis
    using h e afl_protect_first_success [of no_memory_world "initial_state Map.empty"]
      afl_protect_first_success [of example_world "initial_state Map.empty"]
    by (simp add: MAP_FAILED_def NULL_def)
qed

section \<open>The deferred forkserver (\<open>__decide_deferred_forkserver\<close>)\<close>

text \<open>What \<open>__decide_deferred_forkserver\<close> does under the override: the variable is
  cleared, or the process aborts.\<close>

lemma decide_deferred_forkserver_clears:
  assumes "getenv ''AFL_DRIVER_DONT_DEFER'' s \<noteq> None"
  shows "(sys_unsetenv w ''__AFL_DEFER_FORKSRV'' \<longrightarrow>
            halted (decide_deferred_forkserver w s) = None \<and>
            getenv ''__AFL_DEFER_FORKSRV'' (final_state (decide_deferred_forkserver w s)) = None) \<and>
         (\<not> sys_unsetenv w ''__AFL_DEFER_FORKSRV'' \<longrightarrow>
            halted (decide_deferred_forkserver w s) = Some Aborted)"
  using assms by (simp add: decide_deferred_forkserver_def getenv_def emit_def)

text \<open>Whenever the constructors finish, \<open>__afl_protect\<close> has set the variable.\<close>

lemma constructors_leave_defer_set:
  assumes "halted (constructors w s) = None"
  shows "getenv ''__AFL_DEFER_FORKSRV'' (final_state (constructors w s)) = Some ''1''"
proof -
  have p: "getenv ''__AFL_DEFER_FORKSRV'' (afl_protect w s1) = Some ''1''" for s1
    by (simp add: afl_protect_def mmap_def setenv_def getenv_def emit_def Let_def)
  show ?thesis
    using assms p by (cases "decide_deferred_forkserver w s") (simp_all add: constructors_def)
qed

text \<open>
  C8: with \<open>AFL_DRIVER_DONT_DEFER\<close> set, the constructor of priority 0 clears
  \<open>__AFL_DEFER_FORKSRV\<close>, and the variable should still be unset when the
  constructors are done. The run below has the override set and an \<open>unsetenv\<close> that
  succeeds: the variable is unset after \<open>__decide_deferred_forkserver\<close>, and
  \<open>__afl_protect\<close>, which runs next, sets it to \<open>1\<close> again.
\<close>

theorem constructors_set_defer_again:
  "getenv ''AFL_DRIVER_DONT_DEFER'' (initial_state [''AFL_DRIVER_DONT_DEFER'' \<mapsto> ''1'']) = Some ''1'' \<and>
   halted (decide_deferred_forkserver example_world
             (initial_state [''AFL_DRIVER_DONT_DEFER'' \<mapsto> ''1''])) = None \<and>
   getenv ''__AFL_DEFER_FORKSRV''
     (final_state (decide_deferred_forkserver example_world
                     (initial_state [''AFL_DRIVER_DONT_DEFER'' \<mapsto> ''1'']))) = None \<and>
   halted (constructors example_world (initial_state [''AFL_DRIVER_DONT_DEFER'' \<mapsto> ''1''])) = None \<and>
   getenv ''__AFL_DEFER_FORKSRV''
     (final_state (constructors example_world
                     (initial_state [''AFL_DRIVER_DONT_DEFER'' \<mapsto> ''1'']))) = Some ''1'' \<and>
   trace (final_state (constructors example_world
                     (initial_state [''AFL_DRIVER_DONT_DEFER'' \<mapsto> ''1'']))) =
     [Unsetenv ''__AFL_DEFER_FORKSRV'' True, Setenv ''__AFL_DEFER_FORKSRV'' ''1'',
      Mmap 0x10000 256000 [MAP_FIXED_NOREPLACE, MAP_SHARED, MAP_ANONYMOUS] 0x10000]"
  by code_simp

section \<open>Closing standard error (\<open>dup_and_close_stderr\<close>)\<close>

text \<open>Without \<open>__sanitizer_set_report_fd\<close>, \<open>dup_and_close_stderr\<close> replaces no
  descriptor; with it, and when no call fails, the duplicate is made first and the
  descriptor of \<open>output_file\<close> is then replaced by the null device.\<close>

lemma dup_and_close_stderr_without_sanitizer:
  assumes "\<not> sanitizer_set_report_fd w"
  shows "\<not> list_ex is_discard (events_since s (final_state (dup_and_close_stderr w s)))"
  using assms
  by (simp add: dup_and_close_stderr_def Let_def events_since_def split: option.splits)

lemma dup_and_close_stderr_with_sanitizer:
  assumes "sanitizer_set_report_fd w" and "output_file s = Some fd" and "sys_dup w fd > 0"
    and "sys_fdopen w (sys_dup w fd)" and "sys_fopen_devnull w"
  shows "halted (dup_and_close_stderr w s) = None"
    and "events_since s (final_state (dup_and_close_stderr w s)) =
           [Dup fd (sys_dup w fd), Fdopen (sys_dup w fd) True, Set_report_fd (sys_dup w fd),
            Fopen_devnull True, Dup2_devnull fd, Fclose_devnull]"
  using assms
  by (simp_all add: dup_and_close_stderr_def discard_output_def Let_def events_since_def)

text \<open>
  C3: when bit 1 of \<open>AFL_DRIVER_CLOSE_FD_MASK\<close> is set, standard error is duplicated
  and then replaced by the null device. The run below has the mask 2 and no
  \<open>__sanitizer_set_report_fd\<close> linked: the descriptor is duplicated, the function
  returns at the test of the weak symbol, and no \<open>dup2\<close> onto descriptor 2 follows.
\<close>

theorem stderr_not_discarded_without_sanitizer:
  "getenv ''AFL_DRIVER_CLOSE_FD_MASK'' (started [''AFL_DRIVER_CLOSE_FD_MASK'' \<mapsto> ''2'']) = Some ''2'' \<and>
   \<not> sanitizer_set_report_fd example_world \<and>
   halted (main_setup example_world [''prog''] (started [''AFL_DRIVER_CLOSE_FD_MASK'' \<mapsto> ''2''])) = None \<and>
   events_since (started [''AFL_DRIVER_CLOSE_FD_MASK'' \<mapsto> ''2''])
     (final_state (main_setup example_world [''prog''] (started [''AFL_DRIVER_CLOSE_FD_MASK'' \<mapsto> ''2'']))) =
     [Stderr (Msg_dummy_map_at 0x10000), Stdout (Msg_info ''prog''), Dup 2 3, Fdopen 3 True]"
  by code_simp

section \<open>Batch mode (\<open>ExecuteFilesOnyByOne\<close>)\<close>

text \<open>What \<open>read\<close> hands over is never longer than the count asked for, and a positive
  result is the number of bytes handed over.\<close>

lemma sys_read_within_count:
  "length (snd (sys_read rr count)) \<le> count"
  "fst (sys_read rr count) > 0 \<Longrightarrow> fst (sys_read rr count) = int (length (snd (sys_read rr count)))"
  by (cases rr; simp)+

text \<open>
  C6: in batch mode every path that opens and gives more than zero bytes is answered by
  exactly one call of the target, on the bytes read (at most \<open>MAX_FILE\<close> of them, in
  the order of the arguments); a path that does not open or gives no byte is answered by
  none and ends nothing; the function returns 0, for every list of arguments.
\<close>

theorem batch_one_call_per_readable_path:
  "returned (ExecuteFilesOnyByOne w argv s) = Some 0 \<and>
   filter is_target (events_since s (final_state (ExecuteFilesOnyByOne w argv s))) =
     batch_invocations w 1 (drop 1 argv) \<and>
   \<not> list_ex is_loop_query (events_since s (final_state (ExecuteFilesOnyByOne w argv s)))"
proof -
  have "list_all batch_event (events_since s (execute_files_from w 1 (drop 1 argv) s))"
    using keeps_execute_files_from [of s w 1 "drop 1 argv"] by (simp add: keeps_def)
  then have "\<not> list_ex is_loop_query (events_since s (execute_files_from w 1 (drop 1 argv) s))"
    by (rule list_all_not_ex) (rule batch_event_not_loop_query)
  then show ?thesis
    by (simp add: ExecuteFilesOnyByOne_def targets_execute_files_from)
qed

theorem batch_one_call_per_readable_path_witness:
  "returned (ExecuteFilesOnyByOne example_world [''prog'', ''a'', ''missing'', ''b''] (started Map.empty)) = Some 0 \<and>
   filter is_target (events_since (started Map.empty)
      (final_state (ExecuteFilesOnyByOne example_world [''prog'', ''a'', ''missing'', ''b''] (started Map.empty)))) =
     [Target Buf [72, 73], Target Buf [72, 73]]"
proof -
  have "batch_invocations example_world 1 (drop 1 [''prog'', ''a'', ''missing'', ''b'']) =
        [Target Buf [72, 73], Target Buf [72, 73]]"
    by code_simp
  then show ?thesis
    using batch_one_call_per_readable_path [of example_world "[''prog'', ''a'', ''missing'', ''b'']" "started Map.empty"]
    by simp
qed

section \<open>The persistent loop\<close>

text \<open>
  C7: in the persistent loop a \<open>read\<close> of descriptor 0 that returns zero or less is
  followed by no call of the target in that turn, and the loop goes on; the loop ends only
  when \<open>__afl_persistent_loop\<close> answers false, never on the end of the input. As long
  as the primitive has answered true \<open>m\<close> times, the run consists of \<open>m\<close> turns,
  whatever the reads returned: it is still in the loop when the fuel is spent, it returns
  when the next answer is false, and a turn whose read returned zero or less is the query
  and the read alone.
\<close>

theorem loop_ends_only_on_primitive:
  assumes "\<forall>j<m. afl_persistent_loop w (k + j) (var_N s)" and "m \<le> fuel"
  shows "(m = fuel \<longrightarrow>
            persistent_loop fuel w k s =
              Halt Out_of_fuel
                (s\<lparr>trace := trace s @ concat (map (iteration_events w (var_N s)) [k..<k + m])\<rparr>)) \<and>
         (m < fuel \<and> \<not> afl_persistent_loop w (k + m) (var_N s) \<longrightarrow>
            persistent_loop fuel w k s =
              Done ()
                (s\<lparr>trace := trace s @ concat (map (iteration_events w (var_N s)) [k..<k + m]) @
                               [Persistent_loop (var_N s) False]\<rparr>)) \<and>
         (fst (sys_read (stdin_read w j) 1024000) \<le> 0 \<longrightarrow>
            iteration_events w (var_N s) j =
              [Persistent_loop (var_N s) True,
               Read 0 1024000 (fst (sys_read (stdin_read w j) 1024000))])"
proof (intro conjI impI)
  assume "m = fuel"
  then show "persistent_loop fuel w k s =
      Halt Out_of_fuel (s\<lparr>trace := trace s @ concat (map (iteration_events w (var_N s)) [k..<k + m])\<rparr>)"
    using persistent_loop_unroll [OF assms] by simp
next
  assume a: "m < fuel \<and> \<not> afl_persistent_loop w (k + m) (var_N s)"
  then obtain f where f: "fuel - m = Suc f"
    by (cases "fuel - m") auto
  show "persistent_loop fuel w k s =
      Done () (s\<lparr>trace := trace s @ concat (map (iteration_events w (var_N s)) [k..<k + m]) @
                               [Persistent_loop (var_N s) False]\<rparr>)"
    using a by (simp add: persistent_loop_unroll [OF assms] f emit_def)
next
  assume "fst (sys_read (stdin_read w j) 1024000) \<le> 0"
  then show "iteration_events w (var_N s) j =
      [Persistent_loop (var_N s) True, Read 0 1024000 (fst (sys_read (stdin_read w j) 1024000))]"
    by (rule iteration_without_input)
qed

theorem loop_ends_only_on_primitive_witness:
  "afl_persistent_loop example_world 0 (var_N (started Map.empty)) \<and>
   afl_persistent_loop example_world 1 (var_N (started Map.empty)) \<and>
   \<not> afl_persistent_loop example_world 2 (var_N (started Map.empty)) \<and>
   fst (sys_read (stdin_read example_world 0) 1024000) = 0 \<and>
   halted (persistent_loop 5 example_world 0 (started Map.empty)) = None \<and>
   events_since (started Map.empty) (final_state (persistent_loop 5 example_world 0 (started Map.empty))) =
     [Persistent_loop 0 True, Read 0 1024000 0,
      Persistent_loop 0 True, Read 0 1024000 1, Target Buf [65],
      Persistent_loop 0 False] \<and>
   afl_persistent_loop endless_world 0 (var_N (started Map.empty)) \<and>
   afl_persistent_loop endless_world 1 (var_N (started Map.empty)) \<and>
   afl_persistent_loop endless_world 2 (var_N (started Map.empty)) \<and>
   fst (sys_read (stdin_read endless_world 1) 1024000) = 0 \<and>
   halted (persistent_loop 3 endless_world 0 (started Map.empty)) = Some Out_of_fuel \<and>
   events_since (started Map.empty) (final_state (persistent_loop 3 endless_world 0 (started Map.empty))) =
     [Persistent_loop 0 True, Read 0 1024000 0,
      Persistent_loop 0 True, Read 0 1024000 0,
      Persistent_loop 0 True, Read 0 1024000 0]"
proof -
  let ?s = "started Map.empty"
  have n: "var_N ?s = 0"
    by code_simp
  have p: "afl_persistent_loop example_world 0 (var_N ?s)"
    "afl_persistent_loop example_world 1 (var_N ?s)"
    "\<not> afl_persistent_loop example_world 2 (var_N ?s)"
    "afl_persistent_loop endless_world 0 (var_N ?s)"
    "afl_persistent_loop endless_world 1 (var_N ?s)"
    "afl_persistent_loop endless_world 2 (var_N ?s)"
    by (simp_all add: endless_world_def example_world_def)
  have h1: "\<forall>j<2. afl_persistent_loop example_world (0 + j) (var_N ?s)"
    by (simp add: example_world_def)
  have h2: "\<forall>j<3. afl_persistent_loop endless_world (0 + j) (var_N ?s)"
    by (simp add: endless_world_def example_world_def)
  have r: "fst (sys_read (stdin_read example_world 0) 1024000) = 0"
    "fst (sys_read (stdin_read endless_world 1) 1024000) = 0"
    by code_simp+
  have t1: "concat (map (iteration_events example_world (var_N ?s)) [0..<0 + 2]) =
      [Persistent_loop 0 True, Read 0 1024000 0, Persistent_loop 0 True, Read 0 1024000 1, Target Buf [65]]"
    by code_simp
  have t2: "concat (map (iteration_events endless_world (var_N ?s)) [0..<0 + 3]) =
      [Persistent_loop 0 True, Read 0 1024000 0, Persistent_loop 0 True, Read 0 1024000 0,
       Persistent_loop 0 True, Read 0 1024000 0]"
    by code_simp
  have "persistent_loop 5 example_world 0 ?s =
      Done () (?s\<lparr>trace := trace ?s @ concat (map (iteration_events example_world (var_N ?s)) [0..<0 + 2]) @
                               [Persistent_loop (var_N ?s) False]\<rparr>)"
    by (rule loop_ends_only_on_primitive [of 2 example_world 0 ?s 5 0, OF h1,
          THEN conjunct2, THEN conjunct1, THEN mp])
      (simp_all add: example_world_def)
  then have a: "halted (persistent_loop 5 example_world 0 ?s) = None"
    "events_since ?s (final_state (persistent_loop 5 example_world 0 ?s)) =
     [Persistent_loop 0 True, Read 0 1024000 0,
      Persistent_loop 0 True, Read 0 1024000 1, Target Buf [65],
      Persistent_loop 0 False]"
    unfolding t1 by (simp_all add: events_since_def n)
  have "persistent_loop 3 endless_world 0 ?s =
      Halt Out_of_fuel (?s\<lparr>trace := trace ?s @ concat (map (iteration_events endless_world (var_N ?s)) [0..<0 + 3])\<rparr>)"
    by (rule loop_ends_only_on_primitive [of 3 endless_world 0 ?s 3 0, OF h2,
          THEN conjunct1, THEN mp])
      simp_all
  then have b: "halted (persistent_loop 3 endless_world 0 ?s) = Some Out_of_fuel"
    "events_since ?s (final_state (persistent_loop 3 endless_world 0 ?s)) =
     [Persistent_loop 0 True, Read 0 1024000 0,
      Persistent_loop 0 True, Read 0 1024000 0,
      Persistent_loop 0 True, Read 0 1024000 0]"
    unfolding t2 by (simp_all add: events_since_def)
  show ?thesis
    by (intro conjI p r a b)
qed

section \<open>The structure of \<open>main\<close>\<close>

lemma events_since_var_N [simp]:
  "events_since (s\<lparr>var_N := n\<rparr>) s' = events_since s s'"
  "events_since (s\<lparr>afl_sharedmem_fuzzing := v\<rparr>) s' = events_since s s'"
  "events_since (s\<lparr>var_N := n, afl_sharedmem_fuzzing := v\<rparr>) s' = events_since s s'"
  by (simp_all add: events_since_def)

lemma loop_event_tail: "loop_event e \<Longrightarrow> tail_event e"
  by (induction e rule: loop_event.induct) auto

lemma persistent_loop_first_event:
  assumes "fuel > 0"
  shows "\<exists>b rest. events_since s (final_state (persistent_loop fuel w k s)) =
           Persistent_loop (var_N s) b # rest"
proof -
  obtain f where fuel: "fuel = Suc f"
    using assms by (cases fuel) auto
  show ?thesis
  proof (cases "afl_persistent_loop w k (var_N s)")
    case False
    then show ?thesis by (auto simp: fuel)
  next
    case True
    obtain r d where rd: "sys_read (stdin_read w k) 1024000 = (r, d)"
      by (cases "sys_read (stdin_read w k) 1024000")
    let ?s2 = "emit (Read 0 1024000 r) (emit (Persistent_loop (var_N s) True) s)"
    let ?s3 = "if r > 0 then emit (Target Buf d) ?s2 else ?s2"
    have "events_since s (final_state (persistent_loop f w (Suc k) ?s3)) =
          ([Persistent_loop (var_N s) True, Read 0 1024000 r] @ (if r > 0 then [Target Buf d] else [])) @
          events_since ?s3 (final_state (persistent_loop f w (Suc k) ?s3))"
      by (rule events_since_step [OF _ keeps_persistent_loop]) simp
    with True rd show ?thesis
      by (auto simp: fuel Let_def)
  qed
qed

lemma release_and_init_simps [simp]:
  "trace (release_and_init s) = trace s @ [Munmap (afl_area_ptr s) MAX_DUMMY_SIZE, Manual_init]"
  "afl_area_ptr (release_and_init s) = NULL"
  "environ (release_and_init s) = environ s"
  "var_N (release_and_init s) = var_N s"
  by (simp_all add: release_and_init_def emit_def)

lemma main_persistent_abort:
  "\<not> var_N s > 0 \<Longrightarrow>
   main_persistent fuel w a s = Halt Aborted (emit (Stderr Msg_assert_N_positive) s)"
  by (simp add: main_persistent_def)

lemma main_persistent_shape:
  assumes "var_N s > 0"
  shows "\<exists>msg post.
           list_all tail_event post \<and>
           trace (final_state (main_persistent fuel w a s)) =
             trace s @ release_events s @ [Stderr msg, Target Dummy_input (take 1 dummy_input)] @ post \<and>
           (fuel > 0 \<longrightarrow> (\<exists>b rest. post = Persistent_loop (var_N s) b # rest)) \<and>
           var_N (final_state (main_persistent fuel w a s)) = var_N s \<and>
           environ (final_state (main_persistent fuel w a s)) = environ s \<and>
           afl_area_ptr (final_state (main_persistent fuel w a s)) =
             (if getenv ''AFL_DISABLE_LLVM_INSTRUMENTATION'' s = None then NULL else afl_area_ptr s) \<and>
           halted (main_persistent fuel w a s) \<noteq> Some Aborted \<and>
           halted (main_persistent fuel w a s) \<noteq> Some Undefined_behaviour"
proof -
  let ?s1 = "if getenv ''AFL_DISABLE_LLVM_INSTRUMENTATION'' s = None then release_and_init s else s"
  let ?msg = "Msg_dummy_map_now (afl_area_ptr ?s1)"
  let ?s3 = "emit (Target Dummy_input (take 1 dummy_input)) (emit (Stderr ?msg) ?s1)"
  let ?r = "persistent_loop fuel w 0 ?s3"
  let ?les = "events_since ?s3 (final_state ?r)"
  let ?fin = "(case ?r of Done _ s4 \<Rightarrow> [Stdout (Msg_success (case a of [] \<Rightarrow> [] | x # _ \<Rightarrow> x))] | Halt _ _ \<Rightarrow> [])"
  have k: "keeps loop_event ?s3 (final_state ?r)"
    by (rule keeps_persistent_loop)
  have mp: "main_persistent fuel w a s =
            bind ?r (\<lambda>_ s4. Done 0 (emit (Stdout (Msg_success (case a of [] \<Rightarrow> [] | x # _ \<Rightarrow> x))) s4))"
    using assms by (simp add: main_persistent_def Let_def)
  have t3: "trace ?s3 = trace s @ release_events s @ [Stderr ?msg, Target Dummy_input (take 1 dummy_input)]"
    by (simp add: release_events_def)
  have tr: "trace (final_state (main_persistent fuel w a s)) = trace ?s3 @ ?les @ ?fin"
    unfolding mp using k by (cases ?r) (simp_all add: keeps_def)
  have la: "list_all tail_event (?les @ ?fin)"
    using k by (cases ?r) (auto simp: keeps_def list_all_iff intro: loop_event_tail)
  have first: "fuel > 0 \<longrightarrow> (\<exists>b rest. ?les @ ?fin = Persistent_loop (var_N s) b # rest)"
  proof
    assume "fuel > 0"
    from persistent_loop_first_event [OF this, of ?s3 w 0]
    obtain b rest where "?les = Persistent_loop (var_N ?s3) b # rest" by blast
    then show "\<exists>b rest. ?les @ ?fin = Persistent_loop (var_N s) b # rest"
      by simp
  qed
  have fields: "var_N (final_state (main_persistent fuel w a s)) = var_N s"
    "environ (final_state (main_persistent fuel w a s)) = environ s"
    "afl_area_ptr (final_state (main_persistent fuel w a s)) =
             (if getenv ''AFL_DISABLE_LLVM_INSTRUMENTATION'' s = None then NULL else afl_area_ptr s)"
    unfolding mp using k by (cases ?r; simp add: keeps_def)+
  have h: "halted (main_persistent fuel w a s) \<noteq> Some Aborted"
    "halted (main_persistent fuel w a s) \<noteq> Some Undefined_behaviour"
    unfolding mp using halted_persistent_loop [of fuel w 0 ?s3] by (cases ?r; simp)+
  show ?thesis
    apply (rule exI [where x = ?msg])
    apply (rule exI [where x = "?les @ ?fin"])
    using la tr t3 first fields h apply (simp only: append_assoc)
    apply simp
    done
qed


lemma main_persistent_events:
  assumes "var_N s > 0"
  obtains msg post where
    "list_all tail_event post"
    "events_since s (final_state (main_persistent fuel w a s)) =
       release_events s @ [Stderr msg, Target Dummy_input (take 1 dummy_input)] @ post"
    "trace (final_state (main_persistent fuel w a s)) =
       trace s @ events_since s (final_state (main_persistent fuel w a s))"
    "fuel > 0 \<longrightarrow> (\<exists>b rest. post = Persistent_loop (var_N s) b # rest)"
proof -
  from main_persistent_shape [OF assms, of fuel w a]
  obtain msg post where p: "list_all tail_event post"
    "trace (final_state (main_persistent fuel w a s)) =
       trace s @ release_events s @ [Stderr msg, Target Dummy_input (take 1 dummy_input)] @ post"
    "fuel > 0 \<longrightarrow> (\<exists>b rest. post = Persistent_loop (var_N s) b # rest)"
    by blast
  have e: "events_since s (final_state (main_persistent fuel w a s)) =
       release_events s @ [Stderr msg, Target Dummy_input (take 1 dummy_input)] @ post"
    by (rule events_since_append [OF p(2)])
  show thesis
    by (rule that [OF p(1) e _ p(3)]) (simp add: e p(2))
qed

lemma main_persistent_fields:
  "var_N (final_state (main_persistent fuel w a s)) = var_N s"
  "environ (final_state (main_persistent fuel w a s)) = environ s"
  "getenv ''AFL_DISABLE_LLVM_INSTRUMENTATION'' s \<noteq> None \<Longrightarrow>
   afl_area_ptr (final_state (main_persistent fuel w a s)) = afl_area_ptr s"
  using main_persistent_shape [of s fuel w a] main_persistent_abort [of s fuel w a]
  by (cases "var_N s > 0"; auto)+

lemma main_persistent_halted:
  "halted (main_persistent fuel w a s) = Some Aborted \<longleftrightarrow> \<not> var_N s > 0"
  "halted (main_persistent fuel w a s) \<noteq> Some Undefined_behaviour"
  using main_persistent_shape [of s fuel w a] main_persistent_abort [of s fuel w a]
  by (cases "var_N s > 0"; auto)+

lemma tail_event_quiet: "tail_event e \<Longrightarrow> \<not> release_or_signal e"
  by (induction e rule: tail_event.induct) (auto simp: release_or_signal_def)

lemma setup_event_quiet: "setup_event e \<Longrightarrow> \<not> release_or_signal e"
  by (induction e rule: setup_event.induct) (auto simp: release_or_signal_def)

lemma batch_event_quiet: "batch_event e \<Longrightarrow> \<not> release_or_signal e"
  by (induction e rule: batch_event.induct) (auto simp: release_or_signal_def)

lemma setup_event_not_target: "setup_event e \<Longrightarrow> \<not> is_target e"
  by (induction e rule: setup_event.induct) auto

lemma setup_event_not_loop_query: "setup_event e \<Longrightarrow> \<not> is_loop_query e"
  by (induction e rule: setup_event.induct) auto


lemma setup_event_not_manual_init: "setup_event e \<Longrightarrow> \<not> is_manual_init e"
  by (induction e rule: setup_event.induct) auto

lemma tail_event_not_warm_up: "tail_event e \<Longrightarrow> \<not> is_warm_up e"
  by (induction e rule: tail_event.induct) auto

lemma filter_release_events [simp]:
  "filter release_or_signal (release_events s) = release_events s"
  by (simp add: release_events_def release_or_signal_def)

text \<open>The signal events of the part of \<open>main\<close> after the assertion.\<close>

lemma main_persistent_signals:
  "trace (final_state (main_persistent fuel w a s)) =
     trace s @ events_since s (final_state (main_persistent fuel w a s)) \<and>
   filter release_or_signal (events_since s (final_state (main_persistent fuel w a s))) =
     (if var_N s > 0 then release_events s else [])"
proof (cases "var_N s > 0")
  case False
  then show ?thesis
    by (simp add: main_persistent_abort events_since_def release_or_signal_def)
next
  case True
  from main_persistent_events [OF True, of fuel w a]
  obtain msg post where p: "list_all tail_event post"
    "events_since s (final_state (main_persistent fuel w a s)) =
       release_events s @ [Stderr msg, Target Dummy_input (take 1 dummy_input)] @ post"
    "trace (final_state (main_persistent fuel w a s)) =
       trace s @ events_since s (final_state (main_persistent fuel w a s))"
    by blast
  have "filter release_or_signal post = []"
    using p(1) by (rule list_all_filter_empty) (rule tail_event_quiet)
  with True p show ?thesis
    by (simp add: release_or_signal_def)
qed

lemma batch_signals:
  "trace (final_state (ExecuteFilesOnyByOne w a (release_and_init s))) =
     trace s @ events_since s (final_state (ExecuteFilesOnyByOne w a (release_and_init s))) \<and>
   events_since s (final_state (ExecuteFilesOnyByOne w a (release_and_init s))) =
     [Munmap (afl_area_ptr s) MAX_DUMMY_SIZE, Manual_init] @
     events_since (release_and_init s) (final_state (ExecuteFilesOnyByOne w a (release_and_init s))) \<and>
   list_all batch_event
     (events_since (release_and_init s) (final_state (ExecuteFilesOnyByOne w a (release_and_init s))))"
proof -
  let ?s1 = "release_and_init s"
  let ?f = "execute_files_from w 1 (drop 1 a) ?s1"
  have k: "keeps batch_event ?s1 ?f"
    by (rule keeps_execute_files_from)
  have e: "events_since s ?f = [Munmap (afl_area_ptr s) MAX_DUMMY_SIZE, Manual_init] @ events_since ?s1 ?f"
    by (rule events_since_step [OF _ k]) simp
  have "trace ?f = trace s @ events_since s ?f"
    using k unfolding e by (simp add: keeps_def)
  with e k show ?thesis
    by (simp add: ExecuteFilesOnyByOne_def keeps_def)
qed

lemma dispatch_dash:
  "length a = 2 \<Longrightarrow> take 1 (a ! 1) = ''-'' \<Longrightarrow>
   main_dispatch fuel w a s =
     (case atoi (drop 1 (a ! 1)) of
        None \<Rightarrow> Halt Undefined_behaviour (s\<lparr>var_N := INT_MAX\<rparr>)
      | Some n \<Rightarrow> main_persistent fuel w a (s\<lparr>var_N := n\<rparr>))"
  by (simp add: main_dispatch_def Let_def split: option.splits)

lemma dispatch_bare:
  "length a = 2 \<Longrightarrow> take 1 (a ! 1) \<noteq> ''-'' \<Longrightarrow>
   main_dispatch fuel w a s =
     (case atoi (a ! 1) of
        None \<Rightarrow> Halt Undefined_behaviour (s\<lparr>var_N := INT_MAX\<rparr>)
      | Some n \<Rightarrow>
          if n > 0 then
            main_persistent fuel w a (emit (Stdout (Msg_deprecated (a ! 0) n)) (s\<lparr>var_N := n\<rparr>))
          else
            ExecuteFilesOnyByOne w a
              (release_and_init (s\<lparr>var_N := n, afl_sharedmem_fuzzing := 0\<rparr>)))"
  by (simp add: main_dispatch_def Let_def split: option.splits)

lemma dispatch_many:
  "length a > 2 \<Longrightarrow>
   main_dispatch fuel w a s =
     ExecuteFilesOnyByOne w a (release_and_init (s\<lparr>var_N := INT_MAX, afl_sharedmem_fuzzing := 0\<rparr>))"
  by (simp add: main_dispatch_def Let_def)

lemma dispatch_none:
  "length a \<le> 1 \<Longrightarrow> main_dispatch fuel w a s = main_persistent fuel w a (s\<lparr>var_N := INT_MAX\<rparr>)"
  by (simp add: main_dispatch_def Let_def)

lemma shapes: "length a \<le> 1 \<or> length a = 2 \<or> length (a :: string list) > 2"
  by arith

lemma dispatch_signals:
  "trace (final_state (main_dispatch fuel w a s)) =
     trace s @ events_since s (final_state (main_dispatch fuel w a s)) \<and>
   (filter release_or_signal (events_since s (final_state (main_dispatch fuel w a s))) = [] \<or>
    filter release_or_signal (events_since s (final_state (main_dispatch fuel w a s))) =
      [Munmap (afl_area_ptr s) MAX_DUMMY_SIZE, Manual_init])"
proof -
  have pers: "trace (final_state (main_persistent fuel w a (s\<lparr>var_N := n\<rparr>))) =
     trace s @ events_since s (final_state (main_persistent fuel w a (s\<lparr>var_N := n\<rparr>))) \<and>
   (filter release_or_signal (events_since s (final_state (main_persistent fuel w a (s\<lparr>var_N := n\<rparr>)))) = [] \<or>
    filter release_or_signal (events_since s (final_state (main_persistent fuel w a (s\<lparr>var_N := n\<rparr>)))) =
      [Munmap (afl_area_ptr s) MAX_DUMMY_SIZE, Manual_init])" for n
    using main_persistent_signals [of fuel w a "s\<lparr>var_N := n\<rparr>"]
    by (simp add: release_events_def getenv_def)
  have batch: "trace (final_state (ExecuteFilesOnyByOne w a (release_and_init (s\<lparr>var_N := n, afl_sharedmem_fuzzing := 0\<rparr>)))) =
     trace s @ events_since s (final_state (ExecuteFilesOnyByOne w a (release_and_init (s\<lparr>var_N := n, afl_sharedmem_fuzzing := 0\<rparr>)))) \<and>
    filter release_or_signal (events_since s (final_state (ExecuteFilesOnyByOne w a (release_and_init (s\<lparr>var_N := n, afl_sharedmem_fuzzing := 0\<rparr>))))) =
      [Munmap (afl_area_ptr s) MAX_DUMMY_SIZE, Manual_init]" for n
  proof -
    let ?s0 = "s\<lparr>var_N := n, afl_sharedmem_fuzzing := 0\<rparr>"
    let ?f = "final_state (ExecuteFilesOnyByOne w a (release_and_init ?s0))"
    from batch_signals [of w a ?s0]
    have b: "trace ?f = trace s @ events_since s ?f"
      "events_since s ?f = [Munmap (afl_area_ptr s) MAX_DUMMY_SIZE, Manual_init] @ events_since (release_and_init ?s0) ?f"
      "list_all batch_event (events_since (release_and_init ?s0) ?f)"
      by simp_all
    have "filter release_or_signal (events_since (release_and_init ?s0) ?f) = []"
      using b(3) by (rule list_all_filter_empty) (rule batch_event_quiet)
    with b show ?thesis
      by (simp add: release_or_signal_def)
  qed
  have warn: "trace (final_state (main_persistent fuel w a (emit e (s\<lparr>var_N := n\<rparr>)))) =
     trace s @ events_since s (final_state (main_persistent fuel w a (emit e (s\<lparr>var_N := n\<rparr>)))) \<and>
   (filter release_or_signal (events_since s (final_state (main_persistent fuel w a (emit e (s\<lparr>var_N := n\<rparr>))))) = [] \<or>
    filter release_or_signal (events_since s (final_state (main_persistent fuel w a (emit e (s\<lparr>var_N := n\<rparr>))))) =
      [Munmap (afl_area_ptr s) MAX_DUMMY_SIZE, Manual_init])" if "\<not> release_or_signal e" for n e
  proof -
    let ?s0 = "emit e (s\<lparr>var_N := n\<rparr>)"
    let ?f = "final_state (main_persistent fuel w a ?s0)"
    from main_persistent_signals [of fuel w a ?s0]
    have m: "trace ?f = trace ?s0 @ events_since ?s0 ?f"
      "filter release_or_signal (events_since ?s0 ?f) = (if var_N ?s0 > 0 then release_events ?s0 else [])"
      by simp_all
    have "trace ?f = trace s @ ([e] @ events_since ?s0 ?f)"
      using m(1) by simp
    then have "events_since s ?f = [e] @ events_since ?s0 ?f"
      by (rule events_since_append)
    with m that show ?thesis
      by (simp add: release_events_def getenv_def)
  qed
  consider "length a \<le> 1" | "length a = 2" "take 1 (a ! 1) = ''-''"
    | "length a = 2" "take 1 (a ! 1) \<noteq> ''-''" | "length a > 2"
    using shapes [of a] by blast
  then show ?thesis
  proof cases
    case 1
    then show ?thesis using pers by (simp add: dispatch_none)
  next
    case 2
    then show ?thesis using pers
      by (cases "atoi (drop 1 (a ! 1))") (simp_all add: dispatch_dash events_since_def)
  next
    case 3
    have "\<not> release_or_signal (Stdout m)" for m
      by (simp add: release_or_signal_def)
    with 3 show ?thesis using batch warn
      by (cases "atoi (a ! 1)") (simp_all add: dispatch_bare events_since_def)
  next
    case 4
    then show ?thesis using batch by (simp add: dispatch_many)
  qed
qed


lemma main_cases:
  obtains (halt) h s1 where "main_setup w argv s = Halt h s1" "main fuel w argv s = Halt h s1"
      "keeps setup_event s s1" "h \<noteq> Out_of_fuel"
  | (run) s1 where "main_setup w argv s = Done (argv_after_init w argv) s1"
      "main fuel w argv s = main_dispatch fuel w (argv_after_init w argv) s1"
      "keeps setup_event s s1"
proof (cases "main_setup w argv s")
  case (Done a s1)
  have "a = argv_after_init w argv"
    using Done by (rule main_setup_argv)
  moreover have "keeps setup_event s s1"
    using keeps_main_setup [of s w argv] Done by simp
  ultimately show thesis
    using Done by (intro run [of s1]) (simp_all add: main_def)
next
  case (Halt h s1)
  have "keeps setup_event s s1"
    using keeps_main_setup [of s w argv] Halt by simp
  moreover have "h \<noteq> Out_of_fuel"
    using halted_main_setup [of w argv s] Halt by simp
  ultimately show thesis
    using Halt by (intro halt [of h s1]) (simp_all add: main_def)
qed

lemma events_since_two:
  assumes "keeps P s s1" and "trace s2 = trace s1 @ events_since s1 s2"
  shows "events_since s s2 = events_since s s1 @ events_since s1 s2"
proof -
  have "trace s2 = trace s @ (events_since s s1 @ events_since s1 s2)"
    using assms by (simp add: keeps_def)
  then show ?thesis by (rule events_since_append)
qed

lemma manual_init_in_filter:
  "list_ex is_manual_init es \<Longrightarrow> filter release_or_signal es \<noteq> []"
  by (auto simp: list_ex_iff filter_empty_conv release_or_signal_def)

lemma selects_persistent_cases:
  assumes "selects_persistent a"
  obtains (none) "length a \<le> 1"
  | (dash) "length a = 2" "take 1 (a ! 1) = ''-''"
  | (bare) n where "length a = 2" "take 1 (a ! 1) \<noteq> ''-''" "atoi (a ! 1) = Some n" "n > 0"
  using assms by (auto simp: selects_persistent_def split: option.splits)

text \<open>Where an argument list that selects the persistent mode leads \<open>main_dispatch\<close>.\<close>

lemma dispatch_persistent:
  assumes "selects_persistent a"
  obtains (undefined) s0 where "main_dispatch fuel w a s = Halt Undefined_behaviour s0"
      "trace s0 = trace s" "afl_area_ptr s0 = afl_area_ptr s" "var_N s0 = INT_MAX"
  | (persistent) s0 pre where "main_dispatch fuel w a s = main_persistent fuel w a s0"
      "trace s0 = trace s @ pre" "list_all setup_event pre"
      "afl_area_ptr s0 = afl_area_ptr s" "environ s0 = environ s"
  using assms
proof (cases rule: selects_persistent_cases)
  case none
  have "main_dispatch fuel w a s = main_persistent fuel w a (s\<lparr>var_N := INT_MAX\<rparr>)"
    by (rule dispatch_none [OF none])
  then show ?thesis
    by (rule persistent [of "s\<lparr>var_N := INT_MAX\<rparr>" "[]"]) simp_all
next
  case dash
  show ?thesis
  proof (cases "atoi (drop 1 (a ! 1))")
    case None
    have "main_dispatch fuel w a s = Halt Undefined_behaviour (s\<lparr>var_N := INT_MAX\<rparr>)"
      unfolding dispatch_dash [OF dash] None by simp
    then show ?thesis
      by (rule undefined) simp_all
  next
    case (Some n)
    have "main_dispatch fuel w a s = main_persistent fuel w a (s\<lparr>var_N := n\<rparr>)"
      unfolding dispatch_dash [OF dash] Some by simp
    then show ?thesis
      by (rule persistent [of "s\<lparr>var_N := n\<rparr>" "[]"]) simp_all
  qed
next
  case (bare n)
  have "main_dispatch fuel w a s =
        main_persistent fuel w a (emit (Stdout (Msg_deprecated (a ! 0) n)) (s\<lparr>var_N := n\<rparr>))"
    unfolding dispatch_bare [OF bare(1,2)] bare(3) using bare(4) by simp
  then show ?thesis
    by (rule persistent [of _ "[Stdout (Msg_deprecated (a ! 0) n)]"]) simp_all
qed

lemma halt_cases: "h = Aborted \<or> h = Undefined_behaviour \<or> h = Out_of_fuel"
  by (cases h) auto

text \<open>A run of \<open>main\<close> on arguments that select the persistent mode: it stops before the
  warm-up call, or it has the shape of lines 318 to 342.\<close>

lemma persistent_run_cases:
  assumes "selects_persistent (argv_after_init w argv)"
  obtains (stopped)
      "list_all setup_event (events_since s (final_state (main fuel w argv s)))"
      "afl_area_ptr (final_state (main fuel w argv s)) = afl_area_ptr s"
      "halted (main fuel w argv s) = Some Aborted \<or>
       halted (main fuel w argv s) = Some Undefined_behaviour"
  | (looping) pre s0 msg post where
      "list_all setup_event pre"
      "events_since s (final_state (main fuel w argv s)) =
         pre @ release_events s0 @ [Stderr msg, Target Dummy_input (take 1 dummy_input)] @ post"
      "list_all tail_event post"
      "fuel > 0 \<longrightarrow> (\<exists>b rest. post = Persistent_loop (var_N s0) b # rest)"
      "environ s0 = environ s" "afl_area_ptr s0 = afl_area_ptr s"
      "afl_area_ptr (final_state (main fuel w argv s)) =
         (if getenv ''AFL_DISABLE_LLVM_INSTRUMENTATION'' s0 = None then NULL else afl_area_ptr s0)"
      "halted (main fuel w argv s) \<noteq> Some Aborted"
      "halted (main fuel w argv s) \<noteq> Some Undefined_behaviour"
proof (cases rule: main_cases [of w argv s fuel])
  case (halt h s1)
  show ?thesis
    using halt halt_cases [of h] by (intro stopped) (auto simp: keeps_def)
next
  case (run s1)
  let ?a = "argv_after_init w argv"
  have k: "trace s1 = trace s @ events_since s s1" "list_all setup_event (events_since s s1)"
    "afl_area_ptr s1 = afl_area_ptr s" "environ s1 = environ s"
    using run(3) by (simp_all add: keeps_def)
  from assms show ?thesis
  proof (cases rule: dispatch_persistent [of ?a fuel w s1])
    case (undefined s0)
    have "events_since s s0 = events_since s s1"
      using undefined(2) by (simp add: events_since_def)
    then show ?thesis
      using undefined k by (intro stopped) (simp_all add: run(2))
  next
    case (persistent s0 pre)
    have t0: "trace s0 = trace s @ (events_since s s1 @ pre)"
      using persistent(2) k(1) by simp
    show ?thesis
    proof (cases "var_N s0 > 0")
      case False
      have "trace (emit (Stderr Msg_assert_N_positive) s0) =
            trace s @ (events_since s s1 @ pre @ [Stderr Msg_assert_N_positive])"
        using t0 by simp
      then have "events_since s (emit (Stderr Msg_assert_N_positive) s0) =
            events_since s s1 @ pre @ [Stderr Msg_assert_N_positive]"
        by (rule events_since_append)
      then show ?thesis
        using False persistent k
        by (intro stopped) (simp_all add: run(2) main_persistent_abort)
    next
      case True
      from main_persistent_shape [OF True, of fuel w ?a]
      obtain msg post where p: "list_all tail_event post"
        "trace (final_state (main_persistent fuel w ?a s0)) =
           trace s0 @ release_events s0 @ [Stderr msg, Target Dummy_input (take 1 dummy_input)] @ post"
        "fuel > 0 \<longrightarrow> (\<exists>b rest. post = Persistent_loop (var_N s0) b # rest)"
        "afl_area_ptr (final_state (main_persistent fuel w ?a s0)) =
           (if getenv ''AFL_DISABLE_LLVM_INSTRUMENTATION'' s0 = None then NULL else afl_area_ptr s0)"
        "halted (main_persistent fuel w ?a s0) \<noteq> Some Aborted"
        "halted (main_persistent fuel w ?a s0) \<noteq> Some Undefined_behaviour"
        by blast
      have "trace (final_state (main_persistent fuel w ?a s0)) =
            trace s @ ((events_since s s1 @ pre) @ release_events s0 @
              [Stderr msg, Target Dummy_input (take 1 dummy_input)] @ post)"
        using p(2) t0 by simp
      then have e: "events_since s (final_state (main_persistent fuel w ?a s0)) =
            (events_since s s1 @ pre) @ release_events s0 @
              [Stderr msg, Target Dummy_input (take 1 dummy_input)] @ post"
        by (rule events_since_append)
      show ?thesis
        using e p persistent k
        by (intro looping [of "events_since s s1 @ pre" s0 msg post])
           (simp_all add: run(2))
    qed
  qed
qed

lemma setup_event_not_munmap: "setup_event e \<Longrightarrow> \<not> is_munmap e"
  by (induction e rule: setup_event.induct) auto

lemma tail_event_not_munmap: "tail_event e \<Longrightarrow> \<not> is_munmap e"
  by (induction e rule: tail_event.induct) auto

lemma tail_event_not_manual_init: "tail_event e \<Longrightarrow> \<not> is_manual_init e"
  by (induction e rule: tail_event.induct) auto

lemma not_list_ex_append: "\<not> list_ex P (xs @ ys) \<longleftrightarrow> \<not> list_ex P xs \<and> \<not> list_ex P ys"
  by (auto simp: list_ex_iff)

lemma warm_up_payload: "take 1 dummy_input = [35]"
  by code_simp

lemma release_events_not_target: "\<not> list_ex is_target (release_events s)"
  by (simp add: release_events_def)

lemma release_events_not_loop_query: "\<not> list_ex is_loop_query (release_events s)"
  by (simp add: release_events_def)

lemma returned_Done: "returned r = Some v \<Longrightarrow> r = Done v (final_state r)"
  by (cases r) auto

lemma main_after_setup:
  assumes "returned (main_setup w argv s) = Some a"
  shows "main fuel w argv s = main_dispatch fuel w a (final_state (main_setup w argv s))"
    and "keeps setup_event s (final_state (main_setup w argv s))"
proof -
  have "main_setup w argv s = Done a (final_state (main_setup w argv s))"
    using assms by (rule returned_Done)
  then have "bind (main_setup w argv s) (main_dispatch fuel w) =
             main_dispatch fuel w a (final_state (main_setup w argv s))"
    by (metis bind.simps(1))
  then show "main fuel w argv s = main_dispatch fuel w a (final_state (main_setup w argv s))"
    by (simp add: main_def)
  show "keeps setup_event s (final_state (main_setup w argv s))"
    by (rule keeps_main_setup)
qed

lemma dispatch_batch:
  assumes "selects_batch a"
  obtains n where "main_dispatch fuel w a s =
    ExecuteFilesOnyByOne w a (release_and_init (s\<lparr>var_N := n, afl_sharedmem_fuzzing := 0\<rparr>))"
proof -
  consider "length a > 2"
    | n where "length a = 2" "take 1 (a ! 1) \<noteq> ''-''" "atoi (a ! 1) = Some n" "n \<le> 0"
    using assms by (auto simp: selects_batch_def split: option.splits)
  then show thesis
  proof cases
    case 1
    show ?thesis
      by (rule that [of INT_MAX]) (rule dispatch_many [OF 1])
  next
    case (2 n)
    have "main_dispatch fuel w a s =
      ExecuteFilesOnyByOne w a (release_and_init (s\<lparr>var_N := n, afl_sharedmem_fuzzing := 0\<rparr>))"
      unfolding dispatch_bare [OF 2(1,2)] 2(3) using 2(4) by simp
    then show ?thesis
      by (rule that)
  qed
qed

text \<open>A run of \<open>main_dispatch\<close> in batch mode.\<close>

lemma dispatch_batch_run:
  assumes "selects_batch a"
  shows "returned (main_dispatch fuel w a s) = Some 0"
    and "\<exists>bes. list_all batch_event bes \<and>
           filter is_target bes = batch_invocations w 1 (drop 1 a) \<and>
           trace (final_state (main_dispatch fuel w a s)) =
             trace s @ [Munmap (afl_area_ptr s) MAX_DUMMY_SIZE, Manual_init] @ bes"
proof -
  from assms obtain n where d: "main_dispatch fuel w a s =
    ExecuteFilesOnyByOne w a (release_and_init (s\<lparr>var_N := n, afl_sharedmem_fuzzing := 0\<rparr>))"
    by (rule dispatch_batch)
  let ?s0 = "s\<lparr>var_N := n, afl_sharedmem_fuzzing := 0\<rparr>"
  let ?f = "final_state (ExecuteFilesOnyByOne w a (release_and_init ?s0))"
  let ?bes = "events_since (release_and_init ?s0) ?f"
  show "returned (main_dispatch fuel w a s) = Some 0"
    by (simp add: d ExecuteFilesOnyByOne_def)
  from batch_signals [of w a ?s0]
  have b: "trace ?f = trace s @ events_since s ?f"
    "events_since s ?f = [Munmap (afl_area_ptr s) MAX_DUMMY_SIZE, Manual_init] @ ?bes"
    "list_all batch_event ?bes"
    by simp_all
  have "filter is_target ?bes = batch_invocations w 1 (drop 1 a)"
    by (simp add: ExecuteFilesOnyByOne_def targets_execute_files_from)
  moreover have "trace ?f = trace s @ [Munmap (afl_area_ptr s) MAX_DUMMY_SIZE, Manual_init] @ ?bes"
    using b(1) unfolding b(2) .
  ultimately show "\<exists>bes. list_all batch_event bes \<and>
           filter is_target bes = batch_invocations w 1 (drop 1 a) \<and>
           trace (final_state (main_dispatch fuel w a s)) =
             trace s @ [Munmap (afl_area_ptr s) MAX_DUMMY_SIZE, Manual_init] @ bes"
    using b(3) unfolding d by blast
qed

section \<open>Release of the placeholder and the deferred-init signal\<close>

text \<open>
  Claim C1 says that the placeholder is unmapped only after \<open>__afl_manual_init\<close> has
  been called. In both runs below, one in batch mode and one in persistent mode, the signal
  is sent and the \<open>munmap\<close> comes before it.
\<close>

theorem release_before_signal_counterexample:
  "list_ex is_manual_init
     (events_since (started Map.empty)
        (final_state (main 3 example_world [''prog'', ''a''] (started Map.empty)))) \<and>
   \<not> unmap_only_after_signal False
     (events_since (started Map.empty)
        (final_state (main 3 example_world [''prog'', ''a''] (started Map.empty)))) \<and>
   list_ex is_manual_init
     (events_since (started Map.empty)
        (final_state (main 3 example_world [''prog''] (started Map.empty)))) \<and>
   \<not> unmap_only_after_signal False
     (events_since (started Map.empty)
        (final_state (main 3 example_world [''prog''] (started Map.empty))))"
  by code_simp

text \<open>
  C1, as amended: in every run of \<open>main\<close> that sends the deferred-init signal, batch
  or persistent, the placeholder map is unmapped exactly once and the signal is sent
  exactly once, and the \<open>munmap\<close>, of the region pointer \<open>main\<close> started with,
  comes before the call of \<open>__afl_manual_init\<close>, never after it.
\<close>

theorem release_once_then_signal:
  assumes "list_ex is_manual_init (events_since s (final_state (main fuel w argv s)))"
  shows "filter release_or_signal (events_since s (final_state (main fuel w argv s))) =
           [Munmap (afl_area_ptr s) MAX_DUMMY_SIZE, Manual_init]"
proof (cases rule: main_cases [of w argv s fuel])
  case (halt h s1)
  have "list_all setup_event (events_since s s1)"
    using halt(3) by (simp add: keeps_def)
  then have "\<not> list_ex is_manual_init (events_since s s1)"
    by (rule list_all_not_ex) (rule setup_event_not_manual_init)
  with assms halt show ?thesis by simp
next
  case (run s1)
  let ?f = "final_state (main_dispatch fuel w (argv_after_init w argv) s1)"
  note d = dispatch_signals [of fuel w "argv_after_init w argv" s1]
  have e: "events_since s ?f = events_since s s1 @ events_since s1 ?f"
    using run(3) d by (intro events_since_two) simp_all
  have "list_all setup_event (events_since s s1)"
    using run(3) by (simp add: keeps_def)
  then have q: "filter release_or_signal (events_since s s1) = []"
    by (rule list_all_filter_empty) (rule setup_event_quiet)
  have p: "afl_area_ptr s1 = afl_area_ptr s"
    using run(3) by (simp add: keeps_def)
  have "filter release_or_signal (events_since s ?f) \<noteq> []"
    using assms run(2) by (intro manual_init_in_filter) simp
  with d show ?thesis
    by (simp add: run(2) e q p)
qed

theorem release_once_then_signal_witness:
  "list_ex is_manual_init
     (events_since (started Map.empty)
        (final_state (main 3 example_world [''prog'', ''a''] (started Map.empty)))) \<and>
   filter release_or_signal
     (events_since (started Map.empty)
        (final_state (main 3 example_world [''prog'', ''a''] (started Map.empty)))) =
     [Munmap 0x10000 256000, Manual_init] \<and>
   list_ex is_manual_init
     (events_since (started Map.empty)
        (final_state (main 3 example_world [''prog''] (started Map.empty)))) \<and>
   filter release_or_signal
     (events_since (started Map.empty)
        (final_state (main 3 example_world [''prog''] (started Map.empty)))) =
     [Munmap 0x10000 256000, Manual_init]"
proof -
  have batch: "list_ex is_manual_init
     (events_since (started Map.empty)
        (final_state (main 3 example_world [''prog'', ''a''] (started Map.empty))))"
    by code_simp
  have pers: "list_ex is_manual_init
     (events_since (started Map.empty)
        (final_state (main 3 example_world [''prog''] (started Map.empty))))"
    by code_simp
  have p: "afl_area_ptr (started Map.empty) = 0x10000"
    by code_simp
  show ?thesis
    using batch pers release_once_then_signal [OF batch] release_once_then_signal [OF pers]
    by (simp add: p MAX_DUMMY_SIZE_def)
qed

section \<open>Persistent mode with the instrumentation disabled\<close>

text \<open>
  C10: when \<open>AFL_DISABLE_LLVM_INSTRUMENTATION\<close> is set and the arguments select the
  persistent mode, \<open>main\<close> never unmaps the placeholder map, never sends the
  deferred-init signal and leaves the region pointer as it found it, for every amount of
  fuel, that is at every point of the run; and a run that is not aborted reaches the
  persistent loop in that state.
\<close>

theorem placeholder_kept_when_instrumentation_disabled:
  assumes "getenv ''AFL_DISABLE_LLVM_INSTRUMENTATION'' s \<noteq> None"
    and "selects_persistent (argv_after_init w argv)"
  shows "\<not> list_ex is_munmap (events_since s (final_state (main fuel w argv s))) \<and>
         \<not> list_ex is_manual_init (events_since s (final_state (main fuel w argv s))) \<and>
         afl_area_ptr (final_state (main fuel w argv s)) = afl_area_ptr s \<and>
         (fuel > 0 \<and> halted (main fuel w argv s) \<noteq> Some Aborted \<and>
          halted (main fuel w argv s) \<noteq> Some Undefined_behaviour \<longrightarrow>
            list_ex is_loop_query (events_since s (final_state (main fuel w argv s))))"
  using assms(2)
proof (cases rule: persistent_run_cases [of w argv s fuel])
  case stopped
  have "\<not> list_ex is_munmap (events_since s (final_state (main fuel w argv s)))"
    using stopped(1) by (rule list_all_not_ex) (rule setup_event_not_munmap)
  moreover have "\<not> list_ex is_manual_init (events_since s (final_state (main fuel w argv s)))"
    using stopped(1) by (rule list_all_not_ex) (rule setup_event_not_manual_init)
  ultimately show ?thesis
    using stopped(2,3) by auto
next
  case (looping pre s0 msg post)
  have g: "getenv ''AFL_DISABLE_LLVM_INSTRUMENTATION'' s0 \<noteq> None"
    using assms(1) looping(5) by (simp add: getenv_def)
  then have r: "release_events s0 = []"
    by (simp add: release_events_def)
  have pre: "\<not> list_ex is_munmap pre"
    using looping(1) by (rule list_all_not_ex) (rule setup_event_not_munmap)
  have pre': "\<not> list_ex is_manual_init pre"
    using looping(1) by (rule list_all_not_ex) (rule setup_event_not_manual_init)
  have post: "\<not> list_ex is_munmap post"
    using looping(3) by (rule list_all_not_ex) (rule tail_event_not_munmap)
  have post': "\<not> list_ex is_manual_init post"
    using looping(3) by (rule list_all_not_ex) (rule tail_event_not_manual_init)
  have q: "fuel > 0 \<longrightarrow> list_ex is_loop_query post"
    using looping(4) by auto
  show ?thesis
    using pre pre' post post' q g looping(6,7)
    by (auto simp: looping(2) r not_list_ex_append)
qed

theorem placeholder_kept_when_instrumentation_disabled_witness:
  "getenv ''AFL_DISABLE_LLVM_INSTRUMENTATION''
     (started [''AFL_DISABLE_LLVM_INSTRUMENTATION'' \<mapsto> ''1'']) = Some ''1'' \<and>
   selects_persistent (argv_after_init example_world [''prog'', ''-5'']) \<and>
   halted (main 5 example_world [''prog'', ''-5'']
             (started [''AFL_DISABLE_LLVM_INSTRUMENTATION'' \<mapsto> ''1''])) = None \<and>
   \<not> list_ex is_munmap
     (events_since (started [''AFL_DISABLE_LLVM_INSTRUMENTATION'' \<mapsto> ''1''])
        (final_state (main 5 example_world [''prog'', ''-5'']
           (started [''AFL_DISABLE_LLVM_INSTRUMENTATION'' \<mapsto> ''1''])))) \<and>
   \<not> list_ex is_manual_init
     (events_since (started [''AFL_DISABLE_LLVM_INSTRUMENTATION'' \<mapsto> ''1''])
        (final_state (main 5 example_world [''prog'', ''-5'']
           (started [''AFL_DISABLE_LLVM_INSTRUMENTATION'' \<mapsto> ''1''])))) \<and>
   afl_area_ptr (final_state (main 5 example_world [''prog'', ''-5'']
           (started [''AFL_DISABLE_LLVM_INSTRUMENTATION'' \<mapsto> ''1'']))) = 0x10000 \<and>
   list_ex is_loop_query
     (events_since (started [''AFL_DISABLE_LLVM_INSTRUMENTATION'' \<mapsto> ''1''])
        (final_state (main 5 example_world [''prog'', ''-5'']
           (started [''AFL_DISABLE_LLVM_INSTRUMENTATION'' \<mapsto> ''1'']))))"
proof -
  let ?s = "started [''AFL_DISABLE_LLVM_INSTRUMENTATION'' \<mapsto> ''1'']"
  have g: "getenv ''AFL_DISABLE_LLVM_INSTRUMENTATION'' ?s = Some ''1''"
    by code_simp
  then have h1: "getenv ''AFL_DISABLE_LLVM_INSTRUMENTATION'' ?s \<noteq> None"
    by simp
  have h2: "selects_persistent (argv_after_init example_world [''prog'', ''-5''])"
    by code_simp
  have h3: "halted (main 5 example_world [''prog'', ''-5''] ?s) = None"
    by code_simp
  have p: "afl_area_ptr ?s = 0x10000"
    by code_simp
  show ?thesis
    using g h2 h3 placeholder_kept_when_instrumentation_disabled [OF h1 h2, of 5]
    by (simp add: p)
qed

section \<open>The warm-up call\<close>

text \<open>
  C4: in persistent mode, in a run that is not aborted before, the target is called once on
  \<open>dummy_input\<close> with length 1, the one byte \<open>#\<close> (35), whatever the input; no other
  call of the target and no call of \<open>__afl_persistent_loop\<close> comes before it, no second
  warm-up call comes after it, and the next external call after it is the first query of
  \<open>__afl_persistent_loop\<close>.
\<close>

theorem warm_up_once_before_loop:
  assumes "selects_persistent (argv_after_init w argv)"
    and "halted (main fuel w argv s) \<noteq> Some Aborted"
    and "halted (main fuel w argv s) \<noteq> Some Undefined_behaviour"
  shows "\<exists>pre post.
           events_since s (final_state (main fuel w argv s)) =
             pre @ Target Dummy_input [35] # post \<and>
           \<not> list_ex is_target pre \<and> \<not> list_ex is_loop_query pre \<and>
           \<not> list_ex is_warm_up post \<and>
           (fuel > 0 \<longrightarrow> (\<exists>n b rest. post = Persistent_loop n b # rest))"
  using assms(1)
proof (cases rule: persistent_run_cases [of w argv s fuel])
  case stopped
  with assms(2,3) show ?thesis by simp
next
  case (looping pre s0 msg post)
  let ?pre = "pre @ release_events s0 @ [Stderr msg]"
  have a: "\<not> list_ex is_target pre"
    using looping(1) by (rule list_all_not_ex) (rule setup_event_not_target)
  have b: "\<not> list_ex is_loop_query pre"
    using looping(1) by (rule list_all_not_ex) (rule setup_event_not_loop_query)
  have c: "\<not> list_ex is_warm_up post"
    using looping(3) by (rule list_all_not_ex) (rule tail_event_not_warm_up)
  have e: "events_since s (final_state (main fuel w argv s)) = ?pre @ Target Dummy_input [35] # post"
    unfolding looping(2) warm_up_payload by simp
  have "\<not> list_ex is_target ?pre" "\<not> list_ex is_loop_query ?pre"
    using a b by (simp_all add: not_list_ex_append release_events_not_target
        release_events_not_loop_query)
  with e c looping(4) show ?thesis
    by blast
qed

theorem warm_up_once_before_loop_witness:
  "selects_persistent (argv_after_init example_world [''prog'', ''-50'']) \<and>
   halted (main 5 example_world [''prog'', ''-50''] (started Map.empty)) = None \<and>
   (\<exists>pre post.
      events_since (started Map.empty)
        (final_state (main 5 example_world [''prog'', ''-50''] (started Map.empty))) =
        pre @ Target Dummy_input [35] # post \<and>
      \<not> list_ex is_target pre \<and> \<not> list_ex is_loop_query pre \<and> \<not> list_ex is_warm_up post \<and>
      (\<exists>n b rest. post = Persistent_loop n b # rest)) \<and>
   events_since (started Map.empty)
     (final_state (main 5 example_world [''prog'', ''-50''] (started Map.empty))) =
     [Stderr (Msg_dummy_map_at 0x10000), Stdout (Msg_info ''prog''), Munmap 0x10000 256000,
      Manual_init, Stderr (Msg_dummy_map_now 0), Target Dummy_input [35],
      Persistent_loop 50 True, Read 0 1024000 0,
      Persistent_loop 50 True, Read 0 1024000 1, Target Buf [65],
      Persistent_loop 50 False, Stdout (Msg_success ''prog'')]"
proof -
  let ?r = "main 5 example_world [''prog'', ''-50''] (started Map.empty)"
  have h1: "selects_persistent (argv_after_init example_world [''prog'', ''-50''])"
    by code_simp
  have h: "halted ?r = None"
    by code_simp
  then have h2: "halted ?r \<noteq> Some Aborted" and h3: "halted ?r \<noteq> Some Undefined_behaviour"
    by simp_all
  have ev: "events_since (started Map.empty) (final_state ?r) =
     [Stderr (Msg_dummy_map_at 0x10000), Stdout (Msg_info ''prog''), Munmap 0x10000 256000,
      Manual_init, Stderr (Msg_dummy_map_now 0), Target Dummy_input [35],
      Persistent_loop 50 True, Read 0 1024000 0,
      Persistent_loop 50 True, Read 0 1024000 1, Target Buf [65],
      Persistent_loop 50 False, Stdout (Msg_success ''prog'')]"
    by code_simp
  from warm_up_once_before_loop [OF h1 h2 h3]
  have "\<exists>pre post.
      events_since (started Map.empty) (final_state ?r) = pre @ Target Dummy_input [35] # post \<and>
      \<not> list_ex is_target pre \<and> \<not> list_ex is_loop_query pre \<and> \<not> list_ex is_warm_up post \<and>
      (\<exists>n b rest. post = Persistent_loop n b # rest)"
    by simp
  with h1 h ev show ?thesis
    by (intro conjI)
qed

section \<open>The iteration budget and the mode\<close>

text \<open>What \<open>atoi\<close> reads in a decimal integer that fits an \<open>int\<close>, and in a string
  with no number at its start.\<close>

lemma isdigit_plain:
  assumes "isdigit c"
  shows "\<not> isspace c" and "c \<noteq> CHR ''-''" and "c \<noteq> CHR ''+''"
  using assms by (auto simp: isdigit_def isspace_def)

lemma digits_value_foldl:
  "list_all isdigit cs \<Longrightarrow>
   digits_value acc cs = foldl (\<lambda>acc c. acc * 10 + (of_char c - 48)) acc cs"
  by (induction cs arbitrary: acc) simp_all

lemma digits_value_nonneg:
  "0 \<le> acc \<Longrightarrow> 0 \<le> digits_value acc cs"
proof (induction cs arbitrary: acc)
  case Nil
  then show ?case by simp
next
  case (Cons c cs)
  show ?case
  proof (cases "isdigit c")
    case True
    then have "(48::nat) \<le> of_char c"
      by (simp add: isdigit_def)
    then have "int 48 \<le> int (of_char c)"
      by (simp only: of_nat_le_iff)
    then have "(48::int) \<le> of_char c"
      by (simp add: of_nat_of_char)
    then have "0 \<le> acc * 10 + (of_char c - 48)"
      using Cons.prems by simp
    then show ?thesis
      using True by (simp add: Cons.IH)
  next
    case False
    then show ?thesis using Cons.prems by simp
  qed
qed

lemma atoi_decimal_literal:
  assumes "decimal_literal str" and "decimal_value str \<le> INT_MAX"
  shows "atoi str = Some (decimal_value str)"
proof -
  obtain c cs where str: "str = c # cs" and c: "isdigit c" and all: "list_all isdigit str"
    using assms(1) by (cases str) (auto simp: decimal_literal_def)
  have "dropWhile isspace str = c # cs"
    using isdigit_plain(1) [OF c] by (simp add: str)
  then have "strtol10 str = digits_value 0 str"
    using isdigit_plain(2,3) [OF c] by (simp add: strtol10_def str)
  also have "\<dots> = decimal_value str"
    using all by (simp add: digits_value_foldl decimal_value_def)
  finally have v: "strtol10 str = decimal_value str" .
  have "0 \<le> digits_value 0 str"
    by (rule digits_value_nonneg) simp
  then have "INT_MIN \<le> decimal_value str"
    using all by (simp add: digits_value_foldl decimal_value_def INT_MIN_def)
  then show ?thesis
    using assms(2) by (simp add: atoi_def v)
qed

lemma digits_value_no_digit:
  "(case cs of [] \<Rightarrow> True | d # _ \<Rightarrow> \<not> isdigit d) \<Longrightarrow> digits_value 0 cs = 0"
  by (cases cs) simp_all

lemma atoi_no_leading_number:
  assumes "no_leading_number str"
  shows "atoi str = Some 0"
proof -
  have "strtol10 str = 0"
  proof (cases "dropWhile isspace str")
    case Nil
    show ?thesis
      unfolding strtol10_def Nil by simp
  next
    case (Cons c cs)
    have n: "if c = CHR ''-'' \<or> c = CHR ''+'' then (case cs of [] \<Rightarrow> True | d # _ \<Rightarrow> \<not> isdigit d)
             else \<not> isdigit c"
      using assms unfolding no_leading_number_def Cons by simp
    show ?thesis
    proof (cases "c = CHR ''-'' \<or> c = CHR ''+''")
      case True
      then have "digits_value 0 cs = 0"
        using n by (intro digits_value_no_digit) simp
      with True show ?thesis
        unfolding strtol10_def Cons by auto
    next
      case False
      then have "\<not> isdigit c"
        using n by simp
      with False show ?thesis
        unfolding strtol10_def Cons by simp
    qed
  qed
  then show ?thesis
    by (simp add: atoi_def INT_MIN_def INT_MAX_def)
qed


text \<open>
  Claim C2 sends every argument list that is neither one \<open>-<integer>\<close> nor one bare
  positive integer to batch mode. The one argument \<open>-x\<close> is not of the form
  \<open>-<integer>\<close>, and \<open>main\<close> does not run batch mode on it: it takes the branch of
  line 302, reads \<open>N = 0\<close> and aborts at the assertion, with no file opened. The one
  argument \<open>5abc\<close> is not an integer either, and \<open>main\<close> enters the persistent loop.
\<close>

theorem mode_of_other_arguments_counterexample:
  "returned (main_setup example_world [''prog'', ''-x''] (started Map.empty)) = Some [''prog'', ''-x''] \<and>
   \<not> decimal_literal ''x'' \<and>
   halted (main 5 example_world [''prog'', ''-x''] (started Map.empty)) = Some Aborted \<and>
   returned (main 5 example_world [''prog'', ''-x''] (started Map.empty)) = None \<and>
   \<not> list_ex is_manual_init
     (events_since (started Map.empty)
        (final_state (main 5 example_world [''prog'', ''-x''] (started Map.empty)))) \<and>
   \<not> list_ex is_open
     (events_since (started Map.empty)
        (final_state (main 5 example_world [''prog'', ''-x''] (started Map.empty)))) \<and>
   \<not> list_ex is_target
     (events_since (started Map.empty)
        (final_state (main 5 example_world [''prog'', ''-x''] (started Map.empty)))) \<and>
   returned (main_setup example_world [''prog'', ''5abc''] (started Map.empty)) = Some [''prog'', ''5abc''] \<and>
   \<not> decimal_literal ''5abc'' \<and>
   list_ex is_loop_query
     (events_since (started Map.empty)
        (final_state (main 5 example_world [''prog'', ''5abc''] (started Map.empty)))) \<and>
   \<not> list_ex is_open
     (events_since (started Map.empty)
        (final_state (main 5 example_world [''prog'', ''5abc''] (started Map.empty))))"
  by code_simp

text \<open>The budget and the mode in terms of what \<open>atoi\<close> returns.\<close>

lemma budget_and_mode_atoi:
  assumes "returned (main_setup w argv s) = Some a"
  shows "(a = [p, CHR ''-'' # rest] \<and> atoi rest = Some n \<longrightarrow>
            var_N (final_state (main fuel w argv s)) = n) \<and>
         (a = [p, x] \<and> take 1 x \<noteq> ''-'' \<and> atoi x = Some m \<and> m > 0 \<longrightarrow>
            var_N (final_state (main fuel w argv s)) = m \<and>
            Stdout (Msg_deprecated p m) \<in> set (events_since s (final_state (main fuel w argv s)))) \<and>
         (selects_batch a \<longrightarrow>
            returned (main fuel w argv s) = Some 0 \<and>
            filter is_target (events_since s (final_state (main fuel w argv s))) =
              batch_invocations w 1 (drop 1 a) \<and>
            \<not> list_ex is_loop_query (events_since s (final_state (main fuel w argv s)))) \<and>
         (length a \<le> 1 \<longrightarrow> var_N (final_state (main fuel w argv s)) = INT_MAX) \<and>
         (selects_persistent a \<and> \<not> var_N (final_state (main fuel w argv s)) > 0 \<longrightarrow>
            halted (main fuel w argv s) = Some Aborted)"
proof (intro conjI impI)
  let ?s1 = "final_state (main_setup w argv s)"
  note m = main_after_setup(1) [OF assms, where fuel = fuel]
  have k: "trace ?s1 = trace s @ events_since s ?s1" "list_all setup_event (events_since s ?s1)"
    using main_after_setup(2) [OF assms] by (simp_all add: keeps_def)
  {
    assume a: "a = [p, CHR ''-'' # rest] \<and> atoi rest = Some n"
    then have "main_dispatch fuel w a ?s1 = main_persistent fuel w a (?s1\<lparr>var_N := n\<rparr>)"
      by (simp add: dispatch_dash)
    then show "var_N (final_state (main fuel w argv s)) = n"
      by (simp add: m main_persistent_fields)
  }
  {
    assume a: "a = [p, x] \<and> take 1 x \<noteq> ''-'' \<and> atoi x = Some m \<and> m > 0"
    let ?s0 = "emit (Stdout (Msg_deprecated p m)) (?s1\<lparr>var_N := m\<rparr>)"
    let ?f = "final_state (main_persistent fuel w a ?s0)"
    have d: "main_dispatch fuel w a ?s1 = main_persistent fuel w a ?s0"
      using a by (simp add: dispatch_bare)
    then show "var_N (final_state (main fuel w argv s)) = m"
      by (simp add: m main_persistent_fields)
    have "trace ?f = trace ?s0 @ events_since ?s0 ?f"
      using main_persistent_signals [of fuel w a ?s0] by simp
    then have "trace ?f = trace s @ (events_since s ?s1 @ [Stdout (Msg_deprecated p m)] @ events_since ?s0 ?f)"
      using k(1) by simp
    then have "events_since s ?f = events_since s ?s1 @ [Stdout (Msg_deprecated p m)] @ events_since ?s0 ?f"
      by (rule events_since_append)
    then show "Stdout (Msg_deprecated p m) \<in> set (events_since s (final_state (main fuel w argv s)))"
      by (simp add: m d)
  }
  {
    assume b: "selects_batch a"
    let ?f = "final_state (main_dispatch fuel w a ?s1)"
    from dispatch_batch_run [OF b, where fuel = fuel and w = w and s = ?s1]
    obtain bes where r: "returned (main_dispatch fuel w a ?s1) = Some 0"
      and bes: "list_all batch_event bes" "filter is_target bes = batch_invocations w 1 (drop 1 a)"
        "trace ?f = trace ?s1 @ [Munmap (afl_area_ptr ?s1) MAX_DUMMY_SIZE, Manual_init] @ bes"
      by blast
    have "trace ?f = trace s @ (events_since s ?s1 @ [Munmap (afl_area_ptr ?s1) MAX_DUMMY_SIZE, Manual_init] @ bes)"
      using bes(3) k(1) by simp
    then have e: "events_since s ?f =
        events_since s ?s1 @ [Munmap (afl_area_ptr ?s1) MAX_DUMMY_SIZE, Manual_init] @ bes"
      by (rule events_since_append)
    have t: "filter is_target (events_since s ?s1) = []"
      using k(2) by (rule list_all_filter_empty) (rule setup_event_not_target)
    have q: "\<not> list_ex is_loop_query (events_since s ?s1)"
      using k(2) by (rule list_all_not_ex) (rule setup_event_not_loop_query)
    have q': "\<not> list_ex is_loop_query bes"
      using bes(1) by (rule list_all_not_ex) (rule batch_event_not_loop_query)
    show "returned (main fuel w argv s) = Some 0"
      by (simp add: m r)
    show "filter is_target (events_since s (final_state (main fuel w argv s))) =
            batch_invocations w 1 (drop 1 a)"
      by (simp add: m e t bes(2))
    show "\<not> list_ex is_loop_query (events_since s (final_state (main fuel w argv s)))"
      using q q' by (simp add: m e not_list_ex_append)
  }
  {
    assume "length a \<le> 1"
    then show "var_N (final_state (main fuel w argv s)) = INT_MAX"
      by (simp add: m dispatch_none main_persistent_fields)
  }
  {
    assume a: "selects_persistent a \<and> \<not> var_N (final_state (main fuel w argv s)) > 0"
    then have sp: "selects_persistent a" ..
    from sp show "halted (main fuel w argv s) = Some Aborted"
    proof (cases rule: dispatch_persistent [of a fuel w ?s1])
      case (undefined s0)
      with a show ?thesis
        by (simp add: m INT_MAX_def)
    next
      case (persistent s0 pre)
      with a show ?thesis
        by (simp add: m main_persistent_fields main_persistent_halted)
    qed
  }
qed

text \<open>
  C2, as amended, for the arguments \<open>a\<close> that \<open>LLVMFuzzerInitialize\<close> leaves, and
  wherever the value \<open>atoi\<close> reads fits an \<open>int\<close> (ISO C leaves \<open>atoi\<close> undefined
  otherwise, and nothing is stated there). With exactly one argument that begins with
  \<open>-\<close>, \<open>N\<close> is the value \<open>atoi\<close> reads in the rest of it: in particular that
  integer when the rest is a decimal integer, digits only, no greater than \<open>INT_MAX\<close>,
  and 0 when the rest, after optional white space and one optional sign, does not go on
  with a digit. With exactly one argument that does not begin with \<open>-\<close> and that
  \<open>atoi\<close> reads as a positive value, in particular a decimal integer from 1 to
  \<open>INT_MAX\<close>, \<open>N\<close> is that value and the deprecation warning is printed. With any
  other non-empty argument list, that is two arguments or more, or one argument without
  \<open>-\<close> read as zero or less, \<open>main\<close> runs batch mode, returns 0 and never calls
  \<open>__afl_persistent_loop\<close>. With no argument \<open>N\<close> is \<open>INT_MAX\<close>. On the way to
  the persistent loop an \<open>N\<close> that is not positive aborts the process.
\<close>

theorem budget_and_mode:
  assumes "returned (main_setup w argv s) = Some a"
  shows "(a = [p, CHR ''-'' # rest] \<and> atoi rest = Some n \<longrightarrow>
            var_N (final_state (main fuel w argv s)) = n) \<and>
         (a = [p, CHR ''-'' # rest] \<and> decimal_literal rest \<and> decimal_value rest \<le> INT_MAX \<longrightarrow>
            var_N (final_state (main fuel w argv s)) = decimal_value rest) \<and>
         (a = [p, CHR ''-'' # rest] \<and> no_leading_number rest \<longrightarrow>
            var_N (final_state (main fuel w argv s)) = 0) \<and>
         (a = [p, x] \<and> take 1 x \<noteq> ''-'' \<and> atoi x = Some m \<and> m > 0 \<longrightarrow>
            var_N (final_state (main fuel w argv s)) = m \<and>
            Stdout (Msg_deprecated p m) \<in> set (events_since s (final_state (main fuel w argv s)))) \<and>
         (a = [p, x] \<and> decimal_literal x \<and> 0 < decimal_value x \<and> decimal_value x \<le> INT_MAX \<longrightarrow>
            var_N (final_state (main fuel w argv s)) = decimal_value x \<and>
            Stdout (Msg_deprecated p (decimal_value x)) \<in>
              set (events_since s (final_state (main fuel w argv s)))) \<and>
         (selects_batch a \<longrightarrow>
            returned (main fuel w argv s) = Some 0 \<and>
            filter is_target (events_since s (final_state (main fuel w argv s))) =
              batch_invocations w 1 (drop 1 a) \<and>
            \<not> list_ex is_loop_query (events_since s (final_state (main fuel w argv s)))) \<and>
         (length a \<le> 1 \<longrightarrow> var_N (final_state (main fuel w argv s)) = INT_MAX) \<and>
         (selects_persistent a \<and> \<not> var_N (final_state (main fuel w argv s)) > 0 \<longrightarrow>
            halted (main fuel w argv s) = Some Aborted)"
proof -
  note dash = budget_and_mode_atoi [OF assms, where fuel = fuel, THEN conjunct1, rule_format]
  note bare = budget_and_mode_atoi [OF assms, where fuel = fuel, THEN conjunct2, THEN conjunct1,
      rule_format]
  note rest = budget_and_mode_atoi [OF assms, where fuel = fuel, THEN conjunct2, THEN conjunct2]
  have c1: "a = [p, CHR ''-'' # rest] \<and> atoi rest = Some n \<longrightarrow>
            var_N (final_state (main fuel w argv s)) = n"
    using dash by blast
  have c2: "a = [p, CHR ''-'' # rest] \<and> decimal_literal rest \<and> decimal_value rest \<le> INT_MAX \<longrightarrow>
            var_N (final_state (main fuel w argv s)) = decimal_value rest"
    using dash atoi_decimal_literal by blast
  have c3: "a = [p, CHR ''-'' # rest] \<and> no_leading_number rest \<longrightarrow>
            var_N (final_state (main fuel w argv s)) = 0"
    using dash atoi_no_leading_number by blast
  have c4: "a = [p, x] \<and> take 1 x \<noteq> ''-'' \<and> atoi x = Some m \<and> m > 0 \<longrightarrow>
            var_N (final_state (main fuel w argv s)) = m \<and>
            Stdout (Msg_deprecated p m) \<in> set (events_since s (final_state (main fuel w argv s)))"
    using bare by blast
  have c5: "a = [p, x] \<and> decimal_literal x \<and> 0 < decimal_value x \<and> decimal_value x \<le> INT_MAX \<longrightarrow>
            var_N (final_state (main fuel w argv s)) = decimal_value x \<and>
            Stdout (Msg_deprecated p (decimal_value x)) \<in>
              set (events_since s (final_state (main fuel w argv s)))"
  proof
    assume h: "a = [p, x] \<and> decimal_literal x \<and> 0 < decimal_value x \<and> decimal_value x \<le> INT_MAX"
    then obtain c cs where x: "x = c # cs" and c: "isdigit c"
      by (cases x) (auto simp: decimal_literal_def)
    have "take 1 x \<noteq> ''-''"
      using isdigit_plain(2) [OF c] by (simp add: x)
    moreover have "atoi x = Some (decimal_value x)"
      using h by (intro atoi_decimal_literal) simp_all
    ultimately show "var_N (final_state (main fuel w argv s)) = decimal_value x \<and>
            Stdout (Msg_deprecated p (decimal_value x)) \<in>
              set (events_since s (final_state (main fuel w argv s)))"
      using h by (intro bare) simp
  qed
  show ?thesis
    by (intro conjI c1 c2 c3 c4 c5 rest [THEN conjunct1] rest [THEN conjunct2, THEN conjunct1]
        rest [THEN conjunct2, THEN conjunct2])
qed

theorem budget_and_mode_witness:
  "returned (main_setup example_world [''prog'', ''-50''] (started Map.empty)) = Some [''prog'', ''-50''] \<and>
   atoi ''50'' = Some 50 \<and> decimal_literal ''50'' \<and> decimal_value ''50'' = 50 \<and>
   var_N (final_state (main 5 example_world [''prog'', ''-50''] (started Map.empty))) = 50 \<and>
   returned (main_setup example_world [''prog'', ''-x''] (started Map.empty)) = Some [''prog'', ''-x''] \<and>
   no_leading_number ''x'' \<and>
   var_N (final_state (main 5 example_world [''prog'', ''-x''] (started Map.empty))) = 0 \<and>
   returned (main_setup example_world [''prog'', ''7''] (started Map.empty)) = Some [''prog'', ''7''] \<and>
   atoi ''7'' = Some 7 \<and> decimal_literal ''7'' \<and> decimal_value ''7'' = 7 \<and>
   var_N (final_state (main 5 example_world [''prog'', ''7''] (started Map.empty))) = 7 \<and>
   Stdout (Msg_deprecated ''prog'' 7) \<in>
     set (events_since (started Map.empty)
            (final_state (main 5 example_world [''prog'', ''7''] (started Map.empty)))) \<and>
   returned (main_setup example_world [''prog'', ''a'', ''missing'', ''b''] (started Map.empty)) =
     Some [''prog'', ''a'', ''missing'', ''b''] \<and>
   selects_batch [''prog'', ''a'', ''missing'', ''b''] \<and>
   returned (main 5 example_world [''prog'', ''a'', ''missing'', ''b''] (started Map.empty)) = Some 0 \<and>
   filter is_target
     (events_since (started Map.empty)
        (final_state (main 5 example_world [''prog'', ''a'', ''missing'', ''b''] (started Map.empty)))) =
     [Target Buf [72, 73], Target Buf [72, 73]] \<and>
   \<not> list_ex is_loop_query
     (events_since (started Map.empty)
        (final_state (main 5 example_world [''prog'', ''a'', ''missing'', ''b''] (started Map.empty)))) \<and>
   returned (main_setup example_world [''prog''] (started Map.empty)) = Some [''prog''] \<and>
   var_N (final_state (main 5 example_world [''prog''] (started Map.empty))) = 2147483647 \<and>
   returned (main_setup example_world [''prog'', ''-0''] (started Map.empty)) = Some [''prog'', ''-0''] \<and>
   selects_persistent [''prog'', ''-0''] \<and>
   var_N (final_state (main 5 example_world [''prog'', ''-0''] (started Map.empty))) = 0 \<and>
   halted (main 5 example_world [''prog'', ''-0''] (started Map.empty)) = Some Aborted"
proof -
  let ?s = "started Map.empty"
  have s1: "returned (main_setup example_world [''prog'', ''-50''] ?s) = Some [''prog'', ''-50'']"
    by code_simp
  have a1: "atoi ''50'' = Some 50"
    by code_simp
  have c1: "var_N (final_state (main 5 example_world [''prog'', ''-50''] ?s)) = 50"
    using budget_and_mode [OF s1, where p = "''prog''" and rest = "''50''" and n = 50 and fuel = 5] a1
    by simp
  have d1: "decimal_literal ''50''" "decimal_value ''50'' = 50"
    by code_simp+
  have "var_N (final_state (main 5 example_world [''prog'', ''-50''] ?s)) = decimal_value ''50''"
    using budget_and_mode [OF s1, where p = "''prog''" and rest = "''50''" and fuel = 5] d1
    by (simp add: INT_MAX_def)
  have sx: "returned (main_setup example_world [''prog'', ''-x''] ?s) = Some [''prog'', ''-x'']"
    by code_simp
  have dx: "no_leading_number ''x''"
    by code_simp
  have cx: "var_N (final_state (main 5 example_world [''prog'', ''-x''] ?s)) = 0"
    using budget_and_mode [OF sx, where p = "''prog''" and rest = "''x''" and fuel = 5] dx
    by simp
  have d2: "decimal_literal ''7''" "decimal_value ''7'' = 7"
    by code_simp+
  have s2: "returned (main_setup example_world [''prog'', ''7''] ?s) = Some [''prog'', ''7'']"
    by code_simp
  have a2: "atoi ''7'' = Some 7"
    by code_simp
  have c2: "var_N (final_state (main 5 example_world [''prog'', ''7''] ?s)) = 7 \<and>
     Stdout (Msg_deprecated ''prog'' 7) \<in>
       set (events_since ?s (final_state (main 5 example_world [''prog'', ''7''] ?s)))"
    using budget_and_mode [OF s2, where p = "''prog''" and x = "''7''" and m = 7 and fuel = 5] a2
    by simp
  have s3: "returned (main_setup example_world [''prog'', ''a'', ''missing'', ''b''] ?s) =
     Some [''prog'', ''a'', ''missing'', ''b'']"
    by code_simp
  have a3: "selects_batch [''prog'', ''a'', ''missing'', ''b'']"
    by code_simp
  have b3: "batch_invocations example_world 1 (drop 1 [''prog'', ''a'', ''missing'', ''b'']) =
     [Target Buf [72, 73], Target Buf [72, 73]]"
    by code_simp
  have c3: "returned (main 5 example_world [''prog'', ''a'', ''missing'', ''b''] ?s) = Some 0 \<and>
     filter is_target
       (events_since ?s (final_state (main 5 example_world [''prog'', ''a'', ''missing'', ''b''] ?s))) =
       [Target Buf [72, 73], Target Buf [72, 73]] \<and>
     \<not> list_ex is_loop_query
       (events_since ?s (final_state (main 5 example_world [''prog'', ''a'', ''missing'', ''b''] ?s)))"
    using budget_and_mode [OF s3, where fuel = 5] a3 unfolding b3
    by blast
  have s4: "returned (main_setup example_world [''prog''] ?s) = Some [''prog'']"
    by code_simp
  have c4: "var_N (final_state (main 5 example_world [''prog''] ?s)) = 2147483647"
    using budget_and_mode [OF s4, where fuel = 5] by (simp add: INT_MAX_def)
  have s5: "returned (main_setup example_world [''prog'', ''-0''] ?s) = Some [''prog'', ''-0'']"
    by code_simp
  have a5: "selects_persistent [''prog'', ''-0'']"
    by code_simp
  have a5': "atoi ''0'' = Some 0"
    by code_simp
  have n5: "var_N (final_state (main 5 example_world [''prog'', ''-0''] ?s)) = 0"
    using budget_and_mode [OF s5, where p = "''prog''" and rest = "''0''" and n = 0 and fuel = 5] a5'
    by simp
  have c5: "halted (main 5 example_world [''prog'', ''-0''] ?s) = Some Aborted"
    using budget_and_mode [OF s5, where fuel = 5] a5 n5 by simp
  show ?thesis
    by (intro conjI s1 a1 d1 c1 sx dx cx s2 a2 d2 c2 [THEN conjunct1] c2 [THEN conjunct2] s3 a3
        c3 [THEN conjunct1] c3 [THEN conjunct2, THEN conjunct1] c3 [THEN conjunct2, THEN conjunct2]
        s4 c4 s5 a5 n5 c5)
qed



end
